theory Spec2Isabelle
  imports Complex_Main "HOL-Library.Multiset" "HOL-Library.Sublist"
begin

section \<open>Strings and numbers of the source language\<close>

text \<open>
  A source string is a \<^typ>\<open>string\<close>; each \<^typ>\<open>char\<close> stands for one UTF-16 code unit in
  the range 0..255.  \<open>String.prototype.trim\<close> removes white space and line terminators at
  both ends; in that range these are TAB, LF, VT, FF, CR, SPACE and NBSP.
\<close>

definition isWhiteSpace :: "char \<Rightarrow> bool" where
  "isWhiteSpace c = (c \<in> {CHR 0x09, CHR 0x0A, CHR 0x0B, CHR 0x0C, CHR 0x0D, CHR 0x20, CHR 0xA0})"

definition trim :: "string \<Rightarrow> string" where
  "trim s = rev (dropWhile isWhiteSpace (rev (dropWhile isWhiteSpace s)))"

text \<open>
  A source \<open>number\<close> is an IEEE double: not-a-number, an infinity, or a finite value, which
  is a rational.  The sign of zero is not kept: no operation modelled here tells \<open>-0\<close> from
  \<open>0\<close> (both print as \<open>0\<close>).  Two numbers print to the same text exactly when they are equal
  here, so a key built from printed numbers is compared by comparing the numbers.
\<close>

datatype number = NaN | PInf | NInf | Fin rat

section \<open>Interface definitions\<close>

record Location =
  latitudeE7 :: number
  longitudeE7 :: number
  placeId :: "string option"
  name :: "string option"
  address :: "string option"
  semanticType :: "string option"

text \<open>\<open>Partial<Location>\<close>: every field optional.\<close>

record PartialLocation =
  latitudeE7' :: "number option"
  longitudeE7' :: "number option"
  placeId' :: "string option"
  name' :: "string option"
  address' :: "string option"
  semanticType' :: "string option"

text \<open>
  The timestamps are declared \<open>string\<close>, but the normaliser stores
  \<open>segment.startTime || segment.startTimestamp\<close>, which is \<open>undefined\<close> when both are
  missing: \<open>None\<close> here.
\<close>

record Duration =
  startTimestamp :: "string option"
  endTimestamp :: "string option"

record PlaceVisit =
  location :: Location
  duration :: Duration
  centerLatE7 :: number
  centerLngE7 :: number
  visitConfidence :: number

record Activity =
  activityType :: string
  probability :: number

record ActivitySegment =
  startLocation :: PartialLocation
  endLocation :: PartialLocation
  duration' :: Duration
  distance :: "number option"
  activities :: "Activity list option"

record TimelineObject =
  placeVisit :: "PlaceVisit option"
  activitySegment :: "ActivitySegment option"

section \<open>The insertion-ordered \<open>Map\<close>\<close>

text \<open>
  A \<open>Map\<close> iterates in the order in which its keys were first inserted, and \<open>set\<close> on a
  key that is present replaces the value in place.  It is an association list with
  distinct keys.
\<close>

type_synonym ('k, 'v) jsmap = "('k \<times> 'v) list"

definition map_has :: "('k, 'v) jsmap \<Rightarrow> 'k \<Rightarrow> bool" where
  "map_has m k = (map_of m k \<noteq> None)"

fun map_set :: "('k, 'v) jsmap \<Rightarrow> 'k \<Rightarrow> 'v \<Rightarrow> ('k, 'v) jsmap" where
  "map_set [] k v = [(k, v)]"
| "map_set ((k', v') # m) k v = (if k' = k then (k, v) # m else (k', v') # map_set m k v)"

text \<open>
  \<open>if (!m.has(k)) m.set(k, []); m.get(k)!.push(obj)\<close>: the group stored under \<open>k\<close> grows
  by \<open>obj\<close> at its end.
\<close>

definition map_push :: "('k, 'a list) jsmap \<Rightarrow> 'k \<Rightarrow> 'a \<Rightarrow> ('k, 'a list) jsmap" where
  "map_push m k obj =
     (let m' = (if \<not> map_has m k then map_set m k [] else m)
      in case map_of m' k of
           Some grp \<Rightarrow> map_set m' k (grp @ [obj])
         | None \<Rightarrow> m')"

section \<open>The Merge/Clean Engine: \<open>cleanData\<close>\<close>

text \<open>The local constant \<open>placeId\<close> of the first loop: the trimmed identifier, or \<open>null\<close>.\<close>

definition trimmedPlaceId :: "Location \<Rightarrow> string option" where
  "trimmedPlaceId loc =
     (case placeId loc of
        None \<Rightarrow> None
      | Some p \<Rightarrow> if p \<noteq> [] \<and> trim p \<noteq> [] then Some (trim p) else None)"

text \<open>One round of the first \<open>forEach\<close>: the state is \<open>(placeIdMap, noPlaceIdRecords)\<close>.\<close>

definition pass1_step ::
  "(string, TimelineObject list) jsmap \<times> TimelineObject list \<Rightarrow> TimelineObject \<Rightarrow>
   (string, TimelineObject list) jsmap \<times> TimelineObject list" where
  "pass1_step st obj =
     (case st of (placeIdMap, noPlaceIdRecords) \<Rightarrow>
        (case placeVisit obj of
           None \<Rightarrow> (placeIdMap, noPlaceIdRecords @ [obj])
         | Some pv \<Rightarrow>
             (case trimmedPlaceId (location pv) of
                Some pid \<Rightarrow> (if pid \<noteq> [] then (map_push placeIdMap pid obj, noPlaceIdRecords)
                             else (placeIdMap, noPlaceIdRecords @ [obj]))
              | None \<Rightarrow> (placeIdMap, noPlaceIdRecords @ [obj]))))"

text \<open>The filter predicate of \<open>withAddress\<close>: the address is present and not blank.\<close>

definition hasAddress :: "TimelineObject \<Rightarrow> bool" where
  "hasAddress obj =
     (case placeVisit obj of
        None \<Rightarrow> False
      | Some pv \<Rightarrow>
          (case address (location pv) of
             None \<Rightarrow> False
           | Some a \<Rightarrow> a \<noteq> [] \<and> trim a \<noteq> []))"

text \<open>
  The body of \<open>placeIdMap.forEach\<close> and of \<open>latLngMap.forEach\<close>: what one group pushes.
  A group is never empty; on an empty one the source would push \<open>group[0]\<close>, which is
  \<open>undefined\<close>, and the model pushes nothing.
\<close>

fun selectSurvivor :: "TimelineObject list \<Rightarrow> TimelineObject list" where
  "selectSurvivor [] = []"
| "selectSurvivor [x] = [x]"
| "selectSurvivor (x # xs) =
     (case filter hasAddress (x # xs) of
        w # _ \<Rightarrow> [w]
      | [] \<Rightarrow> [x])"

definition survivors :: "('k, TimelineObject list) jsmap \<Rightarrow> TimelineObject list" where
  "survivors m = concat (map (\<lambda>(k, grp). selectSurvivor grp) m)"

definition pass1 :: "TimelineObject list \<Rightarrow> TimelineObject list \<times> TimelineObject list" where
  "pass1 cleaned =
     (case foldl pass1_step ([], []) cleaned of
        (placeIdMap, noPlaceIdRecords) \<Rightarrow> (survivors placeIdMap, noPlaceIdRecords))"

definition allRecordsAfterPlaceIdDedup :: "TimelineObject list \<Rightarrow> TimelineObject list" where
  "allRecordsAfterPlaceIdDedup cleaned =
     (case pass1 cleaned of
        (recordsAfterPlaceIdDedup, noPlaceIdRecords) \<Rightarrow> recordsAfterPlaceIdDedup @ noPlaceIdRecords)"

text \<open>
  The keys of \<open>latLngMap\<close>: the text \<open>lat,lng\<close> of a visit, or \<open>activity-\<close> followed by the
  value \<open>Math.random()\<close> returned.  The two shapes never coincide (only the first has a
  comma).  The values \<open>Math.random()\<close> returns are an input of the model: \<open>rnd i\<close> is the
  value of call number \<open>i\<close>.
\<close>

datatype latLngKey = ActivityKey number | LatLngKey number number

text \<open>One round of the second \<open>forEach\<close>: the state is \<open>latLngMap\<close> and the number of
  calls of \<open>Math.random()\<close> made so far.\<close>

definition pass2_step ::
  "(nat \<Rightarrow> number) \<Rightarrow> (latLngKey, TimelineObject list) jsmap \<times> nat \<Rightarrow> TimelineObject \<Rightarrow>
   (latLngKey, TimelineObject list) jsmap \<times> nat" where
  "pass2_step rnd st obj =
     (case st of (latLngMap, calls) \<Rightarrow>
        (case placeVisit obj of
           None \<Rightarrow> (map_set latLngMap (ActivityKey (rnd calls)) [obj], Suc calls)
         | Some pv \<Rightarrow>
             (map_push latLngMap
                (LatLngKey (latitudeE7 (location pv)) (longitudeE7 (location pv))) obj,
              calls)))"

definition pass2 :: "(nat \<Rightarrow> number) \<Rightarrow> TimelineObject list \<Rightarrow> TimelineObject list" where
  "pass2 rnd allRecords = survivors (fst (foldl (pass2_step rnd) ([], 0) allRecords))"

definition dedup :: "(nat \<Rightarrow> number) \<Rightarrow> TimelineObject list \<Rightarrow> TimelineObject list" where
  "dedup rnd cleaned = pass2 rnd (allRecordsAfterPlaceIdDedup cleaned)"

record CleaningStats =
  removedActivities :: nat
  removedDuplicates :: nat
  totalRemoved :: nat

record CleanResult =
  cleaned :: "TimelineObject list"
  stats :: CleaningStats

text \<open>
  \<open>cleanData\<close> reads the two options from the component state; here they are arguments,
  with the values of \<open>Math.random()\<close>.
\<close>

definition cleanData ::
  "bool \<Rightarrow> bool \<Rightarrow> (nat \<Rightarrow> number) \<Rightarrow> TimelineObject list \<Rightarrow> CleanResult" where
  "cleanData removeActivitiesOpt removeDuplicatesOpt rnd timelineObjects =
     (let cleaned0 = timelineObjects;
          cleaned1 = (if removeActivitiesOpt
                      then filter (\<lambda>obj. placeVisit obj \<noteq> None) cleaned0 else cleaned0);
          removedA = (if removeActivitiesOpt then length cleaned0 - length cleaned1 else 0);
          cleaned2 = (if removeDuplicatesOpt then dedup rnd cleaned1 else cleaned1);
          removedD = (if removeDuplicatesOpt then length cleaned1 - length cleaned2 else 0)
      in \<lparr> cleaned = cleaned2,
           stats = \<lparr> removedActivities = removedA, removedDuplicates = removedD,
                     totalRemoved = removedA + removedD \<rparr> \<rparr>)"

section \<open>Arithmetic on doubles\<close>

text \<open>
  The result of an arithmetic operation is the exact result rounded to the nearest double,
  ties to the even significand (IEEE 754 binary64: 53 significant bits, least exponent
  \<open>-1022\<close>, overflow at \<open>2^1024\<close>).
\<close>

text \<open>The number of binary digits of a positive integer.\<close>

function bitLength :: "int \<Rightarrow> int" where
  "bitLength n = (if n \<le> 0 then 0 else 1 + bitLength (n div 2))"
  by pat_completeness auto
termination
  by (relation "measure nat") auto

declare bitLength.simps [simp del]

definition pow2 :: "int \<Rightarrow> rat" where
  "pow2 k = (if 0 \<le> k then 2 ^ nat k else 1 / 2 ^ nat (- k))"

text \<open>The integer part of the binary logarithm of a positive rational.\<close>

definition floorLog2 :: "rat \<Rightarrow> int" where
  "floorLog2 x =
     (if 1 \<le> x then bitLength \<lfloor>x\<rfloor> - 1
      else - bitLength (\<lceil>1 / x\<rceil> - 1))"

definition roundHalfEven :: "rat \<Rightarrow> int" where
  "roundHalfEven y =
     (let f = \<lfloor>y\<rfloor>; d = y - of_int f
      in if d < 1 / 2 then f else if 1 / 2 < d then f + 1 else if even f then f else f + 1)"

definition toDouble :: "rat \<Rightarrow> number" where
  "toDouble q =
     (if q = 0 then Fin 0
      else let e = max (floorLog2 \<bar>q\<bar>) (- 1022);
               u = pow2 (e - 52);
               r = of_int (roundHalfEven (q / u)) * u
           in if 2 ^ 1024 \<le> \<bar>r\<bar> then (if 0 < q then PInf else NInf) else Fin r)"

text \<open>\<open>x * c\<close> and \<open>x / c\<close> for a positive finite constant \<open>c\<close> (here \<open>1e7\<close> and \<open>100\<close>).\<close>

definition times :: "number \<Rightarrow> rat \<Rightarrow> number" where
  "times x c = (case x of Fin q \<Rightarrow> toDouble (q * c) | _ \<Rightarrow> x)"

definition dividedBy :: "number \<Rightarrow> rat \<Rightarrow> number" where
  "dividedBy x c = (case x of Fin q \<Rightarrow> toDouble (q / c) | _ \<Rightarrow> x)"

text \<open>\<open>Math.round\<close>: the nearest integer, a tie going up.\<close>

definition mathRound :: "number \<Rightarrow> number" where
  "mathRound x = (case x of Fin q \<Rightarrow> Fin (of_int \<lfloor>q + 1 / 2\<rfloor>) | _ \<Rightarrow> x)"

text \<open>\<open>x || 0\<close> on a number: \<open>NaN\<close> and zero are falsy.\<close>

definition orZero :: "number \<Rightarrow> number" where
  "orZero x = (if x = NaN \<or> x = Fin 0 then Fin 0 else x)"

section \<open>What the run takes from its environment\<close>

text \<open>
  The text \<open>String(x)\<close> of a number, the values \<open>Math.random()\<close> returns, and the
  pretty-printer \<open>JSON.stringify(_, null, 2)\<close> are functions of the environment.
\<close>

record Env =
  numberToString :: "number \<Rightarrow> string"
  random :: "nat \<Rightarrow> number"
  stringify :: "TimelineObject list \<Rightarrow> string"

definition dq :: char where
  "dq = CHR 0x22"

definition nl :: char where
  "nl = CHR 0x0A"

text \<open>\<open>Array.prototype.join\<close>.\<close>

fun join :: "string \<Rightarrow> string list \<Rightarrow> string" where
  "join sep [] = []"
| "join sep [x] = x"
| "join sep (x # y # ys) = x @ sep @ join sep (y # ys)"

section \<open>The Serializer: \<open>convertToCSV\<close>\<close>

datatype cell = CStr string | CNum number | CUndefined

text \<open>\<open>String(cell)\<close>.\<close>

definition cellToString :: "Env \<Rightarrow> cell \<Rightarrow> string" where
  "cellToString env c =
     (case c of CStr s \<Rightarrow> s | CNum x \<Rightarrow> numberToString env x | CUndefined \<Rightarrow> ''undefined'')"

text \<open>\<open>x || d\<close> on an optional string: the empty string is falsy.\<close>

definition orElse :: "string option \<Rightarrow> string \<Rightarrow> string" where
  "orElse x d = (case x of None \<Rightarrow> d | Some s \<Rightarrow> if s = [] then d else s)"

definition timestampCell :: "string option \<Rightarrow> cell" where
  "timestampCell t = (case t of None \<Rightarrow> CUndefined | Some s \<Rightarrow> CStr s)"

definition csvHeader :: "cell list" where
  "csvHeader = map CStr [''Type'', ''Name'', ''Address'', ''Latitude'', ''Longitude'',
     ''Start Time'', ''End Time'', ''PlaceId'']"

text \<open>\<open>as.activities?.[0]?.activityType || 'UNKNOWN'\<close>.\<close>

definition actType :: "ActivitySegment \<Rightarrow> string" where
  "actType as =
     (case activities as of
        None \<Rightarrow> ''UNKNOWN''
      | Some [] \<Rightarrow> ''UNKNOWN''
      | Some (a # _) \<Rightarrow> if activityType a = [] then ''UNKNOWN'' else activityType a)"

text \<open>\<open>(x ?? 0) / 1e7\<close>.\<close>

definition orZeroE7 :: "number option \<Rightarrow> number" where
  "orZeroE7 x = dividedBy (case x of None \<Rightarrow> Fin 0 | Some v \<Rightarrow> v) 10000000"

text \<open>The row one record pushes: none when it is neither a visit nor an activity.\<close>

definition csvRow :: "TimelineObject \<Rightarrow> cell list option" where
  "csvRow obj =
     (case placeVisit obj of
        Some pv \<Rightarrow>
          Some [CStr ''Visit'',
                CStr (orElse (name (location pv)) []),
                CStr (orElse (address (location pv)) []),
                CNum (dividedBy (latitudeE7 (location pv)) 10000000),
                CNum (dividedBy (longitudeE7 (location pv)) 10000000),
                timestampCell (startTimestamp (duration pv)),
                timestampCell (endTimestamp (duration pv)),
                CStr (orElse (placeId (location pv)) [])]
      | None \<Rightarrow>
          (case activitySegment obj of
             Some as \<Rightarrow>
               Some [CStr ''Activity'',
                     CStr (actType as),
                     CStr [],
                     CNum (orZeroE7 (latitudeE7' (startLocation as))),
                     CNum (orZeroE7 (longitudeE7' (startLocation as))),
                     timestampCell (startTimestamp (duration' as)),
                     timestampCell (endTimestamp (duration' as)),
                     CStr []]
           | None \<Rightarrow> None))"

text \<open>\<open>s.replace(/"/g, '""')\<close>.\<close>

definition doubleQuotes :: "string \<Rightarrow> string" where
  "doubleQuotes s = concat (map (\<lambda>c. if c = dq then [dq, dq] else [c]) s)"

definition quoteCell :: "Env \<Rightarrow> cell \<Rightarrow> string" where
  "quoteCell env c = [dq] @ doubleQuotes (cellToString env c) @ [dq]"

definition csvRows :: "TimelineObject list \<Rightarrow> cell list list" where
  "csvRows data = csvHeader # List.map_filter csvRow data"

definition convertToCSV :: "Env \<Rightarrow> TimelineObject list \<Rightarrow> string" where
  "convertToCSV env data = join [nl] (map (\<lambda>row. join '','' (map (quoteCell env) row)) (csvRows data))"

section \<open>The Serializer: \<open>escapeXml\<close> and \<open>convertToKML\<close>\<close>

definition escapeChar :: "char \<Rightarrow> string" where
  "escapeChar c =
     (if c = CHR ''<'' then ''&lt;''
      else if c = CHR ''>'' then ''&gt;''
      else if c = CHR ''&'' then ''&amp;''
      else if c = dq then ''&quot;''
      else if c = CHR 0x27 then ''&apos;''
      else [c])"

definition escapeXml :: "string \<Rightarrow> string" where
  "escapeXml unsafe = concat (map escapeChar unsafe)"

definition kmlHeader :: string where
  "kmlHeader = concat (map (\<lambda>l. l @ [nl])
     [''<?xml version='' @ [dq] @ ''1.0'' @ [dq] @ '' encoding='' @ [dq] @ ''UTF-8'' @ [dq] @ ''?>'',
      ''<kml xmlns='' @ [dq] @ ''http://www.opengis.net/kml/2.2'' @ [dq] @ ''>'',
      ''  <Document>'',
      ''    <name>Timeline Data</name>'',
      ''    <Style id='' @ [dq] @ ''visit'' @ [dq] @ ''>'',
      ''      <IconStyle>'',
      ''        <color>ff0000ff</color>'',
      ''        <Icon>'',
      ''          <href>http://maps.google.com/mapfiles/kml/pushpin/red-pushpin.png</href>'',
      ''        </Icon>'',
      ''      </IconStyle>'',
      ''    </Style>''])"

definition kmlFooter :: string where
  "kmlFooter = ''  </Document>'' @ [nl] @ ''</kml>''"

text \<open>\<open>${t}\<close> on a timestamp of the duration.\<close>

definition timestampText :: "string option \<Rightarrow> string" where
  "timestampText t = (case t of None \<Rightarrow> ''undefined'' | Some s \<Rightarrow> s)"

text \<open>The constant \<open>name\<close> of the loop: escaped.\<close>

definition placemarkName :: "PlaceVisit \<Rightarrow> string" where
  "placemarkName pv = escapeXml (orElse (name (location pv)) ''Unknown Location'')"

text \<open>What stands between \<open><![CDATA[\<close> and \<open>]]>\<close>: nothing in it is escaped.\<close>

definition placemarkDescription :: "PlaceVisit \<Rightarrow> string" where
  "placemarkDescription pv =
     orElse (address (location pv)) [] @ [nl] @
     ''Start: '' @ timestampText (startTimestamp (duration pv)) @ [nl] @
     ''End: '' @ timestampText (endTimestamp (duration pv))"

definition placemark :: "Env \<Rightarrow> PlaceVisit \<Rightarrow> string" where
  "placemark env pv =
     (let lat = dividedBy (latitudeE7 (location pv)) 10000000;
          lng = dividedBy (longitudeE7 (location pv)) 10000000
      in ''    <Placemark>'' @ [nl] @
         ''      <name>'' @ placemarkName pv @ ''</name>'' @ [nl] @
         ''      <description><![CDATA['' @ placemarkDescription pv @ '']]></description>'' @ [nl] @
         ''      <styleUrl>#visit</styleUrl>'' @ [nl] @
         ''      <Point>'' @ [nl] @
         ''        <coordinates>'' @ numberToString env lng @ '','' @ numberToString env lat @
           '',0</coordinates>'' @ [nl] @
         ''      </Point>'' @ [nl] @
         ''    </Placemark>'' @ [nl])"

definition convertToKML :: "Env \<Rightarrow> TimelineObject list \<Rightarrow> string" where
  "convertToKML env data =
     kmlHeader @ concat (map (placemark env) (List.map_filter placeVisit data)) @ kmlFooter"

section \<open>The Chunker: \<open>splitIntoChunks\<close>\<close>

text \<open>\<open>data.slice(i, j)\<close> for \<open>0 \<le> i \<le> j\<close>.\<close>

definition slice :: "'a list \<Rightarrow> nat \<Rightarrow> nat \<Rightarrow> 'a list" where
  "slice data i j = take (j - i) (drop i data)"

text \<open>The \<open>for\<close> loop; with \<open>chunkSize = 0\<close> it does not end.\<close>

partial_function (option) chunkLoop ::
  "'a list \<Rightarrow> nat \<Rightarrow> nat \<Rightarrow> 'a list list \<Rightarrow> 'a list list option" where
  "chunkLoop data chunkSize i chunks =
     (if i < length data
      then chunkLoop data chunkSize (i + chunkSize) (chunks @ [slice data i (i + chunkSize)])
      else Some chunks)"

definition splitIntoChunks :: "'a list \<Rightarrow> nat \<Rightarrow> 'a list list option" where
  "splitIntoChunks data chunkSize = chunkLoop data chunkSize 0 []"

text \<open>
  The rendering step of \<open>processFiles\<close>: the lists \<open>csvFiles\<close> and \<open>kmlFiles\<close>.
\<close>

definition renderFiles ::
  "Env \<Rightarrow> bool \<Rightarrow> TimelineObject list \<Rightarrow> (string list \<times> string list) option" where
  "renderFiles env splitFilesOpt cleanedData =
     (if splitFilesOpt \<and> length cleanedData > 2000
      then (case splitIntoChunks cleanedData 2000 of
              None \<Rightarrow> None
            | Some chunks \<Rightarrow> Some (map (convertToCSV env) chunks, map (convertToKML env) chunks))
      else Some ([convertToCSV env cleanedData], [convertToKML env cleanedData]))"

section \<open>Parsed JSON values\<close>

text \<open>
  What \<open>JSON.parse\<close> returns.  The properties of an object are a list with distinct keys,
  in the order \<open>Object.keys\<close> gives them.  A value that may be \<open>undefined\<close> is a
  \<open>json option\<close>.
\<close>

datatype json = JNull | JBool bool | JNum number | JStr string | JArr "json list"
  | JObj "(string \<times> json) list"

text \<open>
  What a step can raise: an \<open>Error\<close> with its message, or a \<open>TypeError\<close> of the engine.
  \<open>NotModelled\<close> is no exception of the program: the records are typed here as the
  interfaces declare them, and the model stops with \<open>NotModelled\<close> where the input puts a
  value of another type into a field (the program would carry that value on).
\<close>

datatype exn = Error string | TypeError | NotModelled

definition andThen :: "exn + 'a \<Rightarrow> ('a \<Rightarrow> exn + 'b) \<Rightarrow> exn + 'b" where
  "andThen m f = (case m of Inl e \<Rightarrow> Inl e | Inr x \<Rightarrow> f x)"

section \<open>The engine\<close>

text \<open>
  \<open>JSON.parse\<close> is a function of the environment: the value, or the message of the
  \<open>SyntaxError\<close>.  So are the message of a \<open>TypeError\<close>, and the reading of a parsed legacy
  record through the interface \<open>TimelineObject\<close> (the program does not check it; \<open>None\<close>
  where the value does not fit the interface).  Two conversions of the engine are taken
  from the environment where they are not written out below: \<open>ToNumber\<close> on a string, an
  array or an object (it may raise), and \<open>ToString\<close> on a number that is not an integer
  below \<open>10^21\<close> in magnitude.
\<close>

record Host =
  jsonParse :: "string \<Rightarrow> string + json"
  typeErrorMessage :: string
  asTimelineObject :: "json \<Rightarrow> TimelineObject option"
  coerceToNumber :: "json \<Rightarrow> exn + number"
  numberKey :: "number \<Rightarrow> string"

text \<open>The decimal digits of a natural number.\<close>

function showNat :: "nat \<Rightarrow> string" where
  "showNat n = (if n < 10 then [char_of (48 + n)] else showNat (n div 10) @ [char_of (48 + n mod 10)])"
  by pat_completeness auto
termination
  by (relation "measure id") auto

declare showNat.simps [simp del]

text \<open>\<open>ToNumber\<close> on a value that may be \<open>undefined\<close>.\<close>

definition toNumber :: "Host \<Rightarrow> json option \<Rightarrow> exn + number" where
  "toNumber host v =
     (case v of
        None \<Rightarrow> Inr NaN
      | Some JNull \<Rightarrow> Inr (Fin 0)
      | Some (JBool b) \<Rightarrow> Inr (Fin (if b then 1 else 0))
      | Some (JNum x) \<Rightarrow> Inr x
      | Some w \<Rightarrow> coerceToNumber host w)"

text \<open>
  \<open>ToString\<close> on a number used as a property key: an integer below \<open>10^21\<close> in magnitude
  is written with its decimal digits.
\<close>

definition propertyKey :: "Host \<Rightarrow> number \<Rightarrow> string" where
  "propertyKey host x =
     (case x of
        Fin q \<Rightarrow>
          if of_int \<lfloor>q\<rfloor> = q \<and> \<bar>q\<bar> < 10 ^ 21
          then (if q < 0 then ''-'' @ showNat (nat (- \<lfloor>q\<rfloor>)) else showNat (nat \<lfloor>q\<rfloor>))
          else numberKey host x
      | _ \<Rightarrow> numberKey host x)"

definition truthy :: "json option \<Rightarrow> bool" where
  "truthy v =
     (case v of
        None \<Rightarrow> False
      | Some JNull \<Rightarrow> False
      | Some (JBool b) \<Rightarrow> b
      | Some (JNum x) \<Rightarrow> x \<noteq> NaN \<and> x \<noteq> Fin 0
      | Some (JStr s) \<Rightarrow> s \<noteq> []
      | Some (JArr xs) \<Rightarrow> True
      | Some (JObj kvs) \<Rightarrow> True)"

text \<open>
  \<open>v.k\<close> for the property names the program reads (none of them is a property of a
  string, a number, a boolean or an array): a \<open>TypeError\<close> on \<open>null\<close>.
\<close>

definition getProp :: "json \<Rightarrow> string \<Rightarrow> exn + json option" where
  "getProp v k =
     (case v of
        JNull \<Rightarrow> Inl TypeError
      | JObj kvs \<Rightarrow> Inr (map_of kvs k)
      | _ \<Rightarrow> Inr None)"

text \<open>\<open>v?.k\<close>.\<close>

definition optChain :: "json option \<Rightarrow> string \<Rightarrow> exn + json option" where
  "optChain v k =
     (case v of
        None \<Rightarrow> Inr None
      | Some JNull \<Rightarrow> Inr None
      | Some w \<Rightarrow> getProp w k)"

definition isArray :: "json \<Rightarrow> bool" where
  "isArray v = (case v of JArr xs \<Rightarrow> True | _ \<Rightarrow> False)"

section \<open>\<open>parseFloat\<close>\<close>

definition isDigit :: "char \<Rightarrow> bool" where
  "isDigit c = (48 \<le> (of_char c :: nat) \<and> (of_char c :: nat) \<le> 57)"

definition digitsValue :: "string \<Rightarrow> int" where
  "digitsValue ds = foldl (\<lambda>n c. 10 * n + (of_char c - 48)) 0 ds"

text \<open>The exponent part: \<open>e\<close> or \<open>E\<close>, an optional sign, and at least one digit.\<close>

definition exponentPart :: "string \<Rightarrow> int" where
  "exponentPart r =
     (case r of
        [] \<Rightarrow> 0
      | c # t \<Rightarrow>
          if c = CHR ''e'' \<or> c = CHR ''E''
          then (case t of
                  [] \<Rightarrow> 0
                | s # t' \<Rightarrow>
                    if s = CHR ''-'' then
                      (if takeWhile isDigit t' = [] then 0 else - digitsValue (takeWhile isDigit t'))
                    else if s = CHR ''+'' then
                      (if takeWhile isDigit t' = [] then 0 else digitsValue (takeWhile isDigit t'))
                    else (if takeWhile isDigit t = [] then 0 else digitsValue (takeWhile isDigit t)))
          else 0)"

definition pow10 :: "int \<Rightarrow> rat" where
  "pow10 k = (if 0 \<le> k then 10 ^ nat k else 1 / 10 ^ nat (- k))"

text \<open>The unsigned part of a decimal literal: the longest prefix that is one.\<close>

definition unsignedLiteral :: "string \<Rightarrow> rat option" where
  "unsignedLiteral s =
     (let ip = takeWhile isDigit s;
          r1 = dropWhile isDigit s;
          fp = (case r1 of [] \<Rightarrow> [] | c # t \<Rightarrow> if c = CHR ''.'' then takeWhile isDigit t else []);
          r2 = (case r1 of [] \<Rightarrow> [] | c # t \<Rightarrow> if c = CHR ''.'' then dropWhile isDigit t else r1)
      in if ip = [] \<and> fp = [] then None
         else Some (of_int (digitsValue (ip @ fp)) / 10 ^ length fp * pow10 (exponentPart r2)))"

text \<open>\<open>parseFloat\<close> on a string: leading white space, a sign, \<open>Infinity\<close> or a literal.\<close>

definition parseFloat :: "string \<Rightarrow> number" where
  "parseFloat s =
     (let s1 = dropWhile isWhiteSpace s;
          neg = (case s1 of [] \<Rightarrow> False | c # t \<Rightarrow> c = CHR ''-'');
          s2 = (case s1 of [] \<Rightarrow> [] | c # t \<Rightarrow> if c = CHR ''-'' \<or> c = CHR ''+'' then t else s1)
      in if prefix ''Infinity'' s2 then (if neg then NInf else PInf)
         else (case unsignedLiteral s2 of
                 None \<Rightarrow> NaN
               | Some q \<Rightarrow> toDouble (if neg then - q else q)))"

text \<open>
  \<open>parseFloat\<close> on any value goes through its text.  The text of a number reads back as
  the number; \<open>undefined\<close>, \<open>null\<close>, a boolean and an object have no numeric prefix; the
  text of an array starts with the text of its first element, then a comma.
\<close>

fun parseFloatOf :: "json \<Rightarrow> number" where
  "parseFloatOf JNull = NaN"
| "parseFloatOf (JBool b) = NaN"
| "parseFloatOf (JNum x) = x"
| "parseFloatOf (JStr s) = parseFloat s"
| "parseFloatOf (JArr []) = NaN"
| "parseFloatOf (JArr (x # xs)) = parseFloatOf x"
| "parseFloatOf (JObj kvs) = NaN"

definition parseFloatAny :: "json option \<Rightarrow> number" where
  "parseFloatAny v = (case v of None \<Rightarrow> NaN | Some w \<Rightarrow> parseFloatOf w)"

section \<open>The Dialect Normalizer: \<open>parseLatLng\<close> and \<open>convertNewToOld\<close>\<close>

text \<open>\<open>s.replace(pattern, '')\<close> with a string pattern: the first occurrence goes.\<close>

fun removeFirst :: "string \<Rightarrow> string \<Rightarrow> string" where
  "removeFirst pat [] = []"
| "removeFirst pat (c # cs) =
     (if prefix pat (c # cs) then drop (length pat) (c # cs) else c # removeFirst pat cs)"

text \<open>\<open>s.split(sep)\<close> for a separator that is not empty.\<close>

function splitOn :: "string \<Rightarrow> string \<Rightarrow> string list" where
  "splitOn sep s =
     (if sep = [] \<or> s = [] then [s]
      else if prefix sep s then [] # splitOn sep (drop (length sep) s)
      else (case splitOn sep (tl s) of
              [] \<Rightarrow> [[hd s]]
            | p # ps \<Rightarrow> (hd s # p) # ps))"
  by pat_completeness auto
termination
  by (relation "measure (\<lambda>(sep, s). length s)") auto

declare splitOn.simps [simp del]

text \<open>\<open>parseFloat(parts[i])\<close>: past the end, \<open>parts[i]\<close> is \<open>undefined\<close>.\<close>

definition parseFloatAt :: "string list \<Rightarrow> nat \<Rightarrow> number" where
  "parseFloatAt parts i = (if i < length parts then parseFloat (parts ! i) else NaN)"

definition degreeSign :: char where
  "degreeSign = CHR 0xB0"

text \<open>The body of \<open>parseLatLng\<close> on a string that is not empty.\<close>

definition latLngOfString :: "string \<Rightarrow> number \<times> number" where
  "latLngOfString latLngStr =
     (if prefix ''geo:'' latLngStr
      then (let coords = splitOn '','' (removeFirst ''geo:'' latLngStr)
            in (parseFloatAt coords 0, parseFloatAt coords 1))
      else (let parts = splitOn '', '' (removeFirst [degreeSign] latLngStr)
            in (parseFloatAt parts 0, parseFloatAt parts 1)))"

text \<open>
  \<open>parseLatLng\<close>: a falsy argument gives \<open>(0, 0)\<close>; a truthy one that is no string has no
  \<open>startsWith\<close>.
\<close>

definition parseLatLng :: "json option \<Rightarrow> exn + number \<times> number" where
  "parseLatLng latLngStr =
     (if \<not> truthy latLngStr then Inr (Fin 0, Fin 0)
      else (case latLngStr of
              Some (JStr s) \<Rightarrow> Inr (latLngOfString s)
            | _ \<Rightarrow> Inl TypeError))"

text \<open>
  \<open>typeof x === 'string' ? parseLatLng(x) : x?.latLng ? parseLatLng(x.latLng) : (0, 0)\<close>:
  the two shapes of a location.
\<close>

definition locationCoords :: "json option \<Rightarrow> exn + number \<times> number" where
  "locationCoords x =
     (case x of
        Some (JStr s) \<Rightarrow> parseLatLng x
      | _ \<Rightarrow> andThen (optChain x ''latLng'')
               (\<lambda>latLng. if truthy latLng then parseLatLng latLng else Inr (Fin 0, Fin 0)))"

text \<open>\<open>x || d\<close> stored in a field declared \<open>string\<close>.\<close>

definition stringOr :: "json option \<Rightarrow> string \<Rightarrow> exn + string" where
  "stringOr x d =
     (if \<not> truthy x then Inr d
      else (case x of Some (JStr s) \<Rightarrow> Inr s | _ \<Rightarrow> Inl NotModelled))"

text \<open>\<open>a || b\<close> stored in a timestamp: \<open>b\<close> as it is when \<open>a\<close> is falsy.\<close>

definition timestampOr :: "json option \<Rightarrow> json option \<Rightarrow> exn + string option" where
  "timestampOr a b =
     (case (if truthy a then a else b) of
        None \<Rightarrow> Inr None
      | Some (JStr s) \<Rightarrow> Inr (Some s)
      | _ \<Rightarrow> Inl NotModelled)"

definition segmentDuration :: "json \<Rightarrow> exn + Duration" where
  "segmentDuration segment =
     andThen (getProp segment ''startTime'') (\<lambda>startTime.
     andThen (getProp segment ''startTimestamp'') (\<lambda>startTimestamp'.
     andThen (getProp segment ''endTime'') (\<lambda>endTime.
     andThen (getProp segment ''endTimestamp'') (\<lambda>endTimestamp'.
     andThen (timestampOr startTime startTimestamp') (\<lambda>start.
     andThen (timestampOr endTime endTimestamp') (\<lambda>end'.
       Inr \<lparr> startTimestamp = start, endTimestamp = end' \<rparr>))))))"

text \<open>\<open>Math.round(x * 1e7)\<close>.\<close>

definition toE7 :: "number \<Rightarrow> number" where
  "toE7 x = mathRound (times x 10000000)"

text \<open>The branch \<open>if (segment.visit)\<close>.\<close>

definition convertVisit :: "json \<Rightarrow> json \<Rightarrow> exn + TimelineObject" where
  "convertVisit segment visit =
     andThen (getProp visit ''topCandidate'') (\<lambda>tc.
     (let topCandidate = (case tc of None \<Rightarrow> JObj [] | Some c \<Rightarrow> if truthy tc then c else JObj [])
      in andThen (getProp topCandidate ''placeLocation'') (\<lambda>placeLocation.
         andThen (locationCoords placeLocation) (\<lambda>(lat, lng).
         andThen (getProp topCandidate ''placeId'') (\<lambda>pid.
         andThen (stringOr pid []) (\<lambda>placeId0.
         andThen (optChain placeLocation ''name'') (\<lambda>nm.
         andThen (stringOr nm []) (\<lambda>name0.
         andThen (optChain placeLocation ''address'') (\<lambda>ad.
         andThen (stringOr ad []) (\<lambda>address0.
         andThen (getProp topCandidate ''semanticType'') (\<lambda>st.
         andThen (stringOr st ''TYPE_UNKNOWN'') (\<lambda>semanticType0.
         andThen (segmentDuration segment) (\<lambda>duration0.
         andThen (getProp visit ''probability'') (\<lambda>probability0.
           Inr \<lparr> placeVisit = Some
                   \<lparr> location = \<lparr> latitudeE7 = toE7 lat, longitudeE7 = toE7 lng,
                                  placeId = Some placeId0, name = Some name0,
                                  address = Some address0, semanticType = Some semanticType0 \<rparr>,
                     duration = duration0,
                     centerLatE7 = toE7 lat, centerLngE7 = toE7 lng,
                     visitConfidence = mathRound (times (orZero (parseFloatAny probability0)) 100) \<rparr>,
                 activitySegment = None \<rparr>))))))))))))))"

definition coordsOnly :: "number \<times> number \<Rightarrow> PartialLocation" where
  "coordsOnly c =
     \<lparr> latitudeE7' = Some (toE7 (fst c)), longitudeE7' = Some (toE7 (snd c)),
       placeId' = None, name' = None, address' = None, semanticType' = None \<rparr>"

text \<open>The branch \<open>else if (segment.activity)\<close>.\<close>

definition convertActivity :: "json \<Rightarrow> json \<Rightarrow> exn + TimelineObject" where
  "convertActivity segment activity =
     andThen (getProp activity ''start'') (\<lambda>start.
     andThen (locationCoords start) (\<lambda>startCoords.
     andThen (getProp activity ''end'') (\<lambda>end'.
     andThen (locationCoords end') (\<lambda>endCoords.
     andThen (getProp activity ''topCandidate'') (\<lambda>tc.
     (let topCandidate = (case tc of None \<Rightarrow> JObj [] | Some c \<Rightarrow> if truthy tc then c else JObj [])
      in andThen (getProp topCandidate ''type'') (\<lambda>ty.
         andThen (getProp topCandidate ''probability'') (\<lambda>pr.
         andThen (if truthy ty
                  then (case ty of
                          Some (JStr t) \<Rightarrow>
                            Inr [\<lparr> activityType = t, probability = orZero (parseFloatAny pr) \<rparr>]
                        | _ \<Rightarrow> Inl NotModelled)
                  else Inr []) (\<lambda>activities0.
         andThen (segmentDuration segment) (\<lambda>duration0.
         andThen (getProp activity ''distanceMeters'') (\<lambda>dm.
           Inr \<lparr> placeVisit = None,
                 activitySegment = Some
                   \<lparr> startLocation = coordsOnly startCoords,
                     endLocation = coordsOnly endCoords,
                     duration' = duration0,
                     distance = Some (orZero (parseFloatAny dm)),
                     activities = Some activities0 \<rparr> \<rparr>)))))))))))"

text \<open>
  \<open>path.length > 0\<close> on a truthy value, and then the elements \<open>path[0]\<close> and
  \<open>path[path.length - 1]\<close>.  An array and a string have their length and their elements
  (the elements of a string are its characters); an object has the properties \<open>length\<close> and
  \<open>0\<close>, \<open>1\<close>, ... it was parsed with; a number and \<open>true\<close> have none.
\<close>

definition pathEnds :: "Host \<Rightarrow> json \<Rightarrow> exn + (json option \<times> json option) option" where
  "pathEnds host path =
     (case path of
        JNull \<Rightarrow> Inl TypeError
      | JArr xs \<Rightarrow> Inr (if xs = [] then None else Some (Some (hd xs), Some (last xs)))
      | JStr s \<Rightarrow> Inr (if s = [] then None else Some (Some (JStr [hd s]), Some (JStr [last s])))
      | JObj kvs \<Rightarrow>
          andThen (toNumber host (map_of kvs ''length'')) (\<lambda>n.
            if n = PInf \<or> (case n of Fin q \<Rightarrow> 0 < q | _ \<Rightarrow> False)
            then Inr (Some (map_of kvs (propertyKey host (Fin 0)),
                            map_of kvs (propertyKey host
                              (case n of Fin q \<Rightarrow> toDouble (q - 1) | _ \<Rightarrow> n))))
            else Inr None)
      | _ \<Rightarrow> Inr None)"

text \<open>\<open>x.point\<close> on an element: a \<open>TypeError\<close> on \<open>undefined\<close> and on \<open>null\<close>.\<close>

definition pointOf :: "json option \<Rightarrow> exn + json option" where
  "pointOf x = (case x of None \<Rightarrow> Inl TypeError | Some v \<Rightarrow> getProp v ''point'')"

text \<open>The branch \<open>else if (segment.timelinePath)\<close>; no record for an empty path.\<close>

definition convertPath :: "Host \<Rightarrow> json \<Rightarrow> json \<Rightarrow> exn + TimelineObject option" where
  "convertPath host segment path =
     andThen (pathEnds host path) (\<lambda>ends.
       (case ends of
          None \<Rightarrow> Inr None
        | Some (first, final) \<Rightarrow>
            andThen (pointOf first) (\<lambda>firstPt.
            andThen (parseLatLng firstPt) (\<lambda>firstPoint.
            andThen (pointOf final) (\<lambda>lastPt.
            andThen (parseLatLng lastPt) (\<lambda>lastPoint.
            andThen (segmentDuration segment) (\<lambda>duration0.
              Inr (Some \<lparr> placeVisit = None,
                     activitySegment = Some
                       \<lparr> startLocation = coordsOnly firstPoint,
                         endLocation = coordsOnly lastPoint,
                         duration' = duration0,
                         distance = None,
                         activities = None \<rparr> \<rparr>))))))))"

text \<open>The body of the \<open>try\<close> for one segment: the record it pushes, if any.\<close>

definition convertSegment :: "Host \<Rightarrow> json \<Rightarrow> exn + TimelineObject option" where
  "convertSegment host segment =
     andThen (getProp segment ''visit'') (\<lambda>visit.
       if truthy visit then andThen (convertVisit segment (the visit)) (\<lambda>obj. Inr (Some obj))
       else andThen (getProp segment ''activity'') (\<lambda>activity.
         if truthy activity then andThen (convertActivity segment (the activity)) (\<lambda>obj. Inr (Some obj))
         else andThen (getProp segment ''timelinePath'') (\<lambda>path.
           if truthy path then convertPath host segment (the path) else Inr None)))"

text \<open>
  \<open>segments.forEach\<close> with its \<open>try\<close>/\<open>catch\<close>: what a segment raises is logged and the
  segment is skipped.
\<close>

fun convertSegments :: "Host \<Rightarrow> json list \<Rightarrow> exn + TimelineObject list" where
  "convertSegments host [] = Inr []"
| "convertSegments host (segment # segments) =
     (case convertSegment host segment of
        Inl NotModelled \<Rightarrow> Inl NotModelled
      | Inl e \<Rightarrow> convertSegments host segments
      | Inr None \<Rightarrow> convertSegments host segments
      | Inr (Some obj) \<Rightarrow> andThen (convertSegments host segments) (\<lambda>objs. Inr (obj # objs)))"

text \<open>
  \<open>convertNewToOld\<close>: the field \<open>timelineObjects\<close> of its result (the log is not modelled).
  A truthy \<open>semanticSegments\<close> that is no array has no \<open>forEach\<close>.
\<close>

definition convertNewToOld :: "Host \<Rightarrow> json \<Rightarrow> exn + TimelineObject list" where
  "convertNewToOld host newData =
     (case newData of
        JArr segments \<Rightarrow> convertSegments host segments
      | _ \<Rightarrow>
          andThen (getProp newData ''semanticSegments'') (\<lambda>semanticSegments.
            if truthy semanticSegments
            then (case semanticSegments of
                    Some (JArr segments) \<Rightarrow> convertSegments host segments
                  | _ \<Rightarrow> Inl TypeError)
            else Inr []))"

section \<open>\<open>processFiles\<close>\<close>

record File =
  fileName :: string
  fileText :: string

text \<open>\<open>Object.keys(data)\<close>; a \<open>TypeError\<close> on \<open>null\<close>.\<close>

definition objectKeys :: "json \<Rightarrow> exn + string list" where
  "objectKeys data =
     (case data of
        JNull \<Rightarrow> Inl TypeError
      | JObj kvs \<Rightarrow> Inr (map fst kvs)
      | JArr xs \<Rightarrow> Inr (map showNat [0 ..< length xs])
      | JStr s \<Rightarrow> Inr (map showNat [0 ..< length s])
      | _ \<Rightarrow> Inr [])"

text \<open>\<open>[...x]\<close> on a truthy value.\<close>

definition spread :: "json \<Rightarrow> exn + json list" where
  "spread x =
     (case x of
        JArr xs \<Rightarrow> Inr xs
      | JStr s \<Rightarrow> Inr (map (\<lambda>c. JStr [c]) s)
      | _ \<Rightarrow> Inl TypeError)"

fun readAll :: "Host \<Rightarrow> json list \<Rightarrow> exn + TimelineObject list" where
  "readAll host [] = Inr []"
| "readAll host (x # xs) =
     (case asTimelineObject host x of
        None \<Rightarrow> Inl NotModelled
      | Some obj \<Rightarrow> andThen (readAll host xs) (\<lambda>objs. Inr (obj # objs)))"

datatype dialect = DialectA | DialectB | Legacy | Unrecognized

text \<open>
  The tests of the \<open>if\<close> chain of \<open>processFiles\<close>, on a value that is not \<open>null\<close>; the first
  test sends arrays and truthy \<open>semanticSegments\<close> to \<open>convertNewToOld\<close>, which tells them
  apart.
\<close>

definition detect :: "json \<Rightarrow> exn + dialect" where
  "detect data =
     (if isArray data then Inr DialectA
      else andThen (getProp data ''semanticSegments'') (\<lambda>semanticSegments.
        if truthy semanticSegments then Inr DialectB
        else andThen (getProp data ''timelineObjects'') (\<lambda>timelineObjects.
          if truthy timelineObjects then Inr Legacy else Inr Unrecognized)))"

definition unrecognizedMessage :: "string \<Rightarrow> string list \<Rightarrow> string" where
  "unrecognizedMessage fname keys =
     ''File '' @ fname @
     '' has unrecognized format. Expected: array (iOS), semanticSegments (Android), or timelineObjects (old format). Found keys: '' @
     join '', '' keys"

text \<open>The body of the \<open>for\<close> loop for one file: the records it adds, or what it throws.\<close>

definition processFile :: "Host \<Rightarrow> File \<Rightarrow> exn + TimelineObject list" where
  "processFile host file =
     (case jsonParse host (fileText file) of
        Inl message \<Rightarrow> Inl (Error (''Failed to parse '' @ fileName file @ '': '' @ message))
      | Inr data \<Rightarrow>
          andThen (if isArray data then Inr []
                   else (case data of JNull \<Rightarrow> objectKeys data | JObj kvs \<Rightarrow> objectKeys data
                         | _ \<Rightarrow> Inr [])) (\<lambda>logged.
          andThen (detect data) (\<lambda>d.
            (case d of
               DialectA \<Rightarrow> convertNewToOld host data
             | DialectB \<Rightarrow> convertNewToOld host data
             | Legacy \<Rightarrow>
                 andThen (getProp data ''timelineObjects'') (\<lambda>timelineObjects.
                 andThen (spread (the timelineObjects)) (readAll host))
             | Unrecognized \<Rightarrow>
                 andThen (objectKeys data) (\<lambda>keys.
                   Inl (Error (unrecognizedMessage (fileName file) keys)))))))"


record Results =
  oldFormatJson :: string
  csv :: "string list"
  kml :: "string list"
  visitCount :: nat
  activityCount :: nat
  totalCount :: nat
  originalCount :: nat
  cleaningStats :: CleaningStats




section \<open>Notions used to state the properties\<close>

text \<open>
  The distinct elements of a list, in the order in which each occurs first: the order in
  which a JavaScript \<open>Map\<close> holds its keys.
\<close>

definition firstOccurrences :: "'a list \<Rightarrow> 'a list" where
  "firstOccurrences ks = rev (remdups (rev ks))"

text \<open>
  The key of the first pass: the trimmed \<open>placeId\<close> of a visit, when it is not empty.
\<close>

definition usablePlaceId :: "TimelineObject \<Rightarrow> string option" where
  "usablePlaceId obj = (case placeVisit obj of None \<Rightarrow> None | Some pv \<Rightarrow> trimmedPlaceId (location pv))"

text \<open>
  The coordinates of a visit, which the second pass groups by.
\<close>

definition coordinates :: "TimelineObject \<Rightarrow> (number \<times> number) option" where
  "coordinates obj =
     (case placeVisit obj of None \<Rightarrow> None
      | Some pv \<Rightarrow> Some (latitudeE7 (location pv), longitudeE7 (location pv)))"

text \<open>
  The key the second pass gives a record when \<open>calls\<close> random numbers were drawn before it,
  and the keys it gives the records of a list.
\<close>

definition pass2_key :: "(nat \<Rightarrow> number) \<Rightarrow> nat \<Rightarrow> TimelineObject \<Rightarrow> latLngKey" where
  "pass2_key rnd calls obj =
     (case placeVisit obj of None \<Rightarrow> ActivityKey (rnd calls)
      | Some pv \<Rightarrow> LatLngKey (latitudeE7 (location pv)) (longitudeE7 (location pv)))"

fun pass2_keys :: "(nat \<Rightarrow> number) \<Rightarrow> nat \<Rightarrow> TimelineObject list \<Rightarrow> latLngKey list" where
  "pass2_keys rnd calls [] = []"
| "pass2_keys rnd calls (obj # objs) =
     pass2_key rnd calls obj #
     pass2_keys rnd (if placeVisit obj = None then Suc calls else calls) objs"

text \<open>
  One step of the second pass as a function of the key: a visit is pushed to the group of its
  coordinates, any other record replaces the group of its key.
\<close>

definition pass2_put ::
  "(latLngKey, TimelineObject list) jsmap \<Rightarrow> latLngKey \<times> TimelineObject \<Rightarrow>
   (latLngKey, TimelineObject list) jsmap" where
  "pass2_put m p =
     (case fst p of ActivityKey r \<Rightarrow> map_set m (fst p) [snd p]
      | LatLngKey a b \<Rightarrow> map_push m (fst p) (snd p))"

text \<open>
  The group that the second pass holds under a key after the keyed records \<open>kxs\<close>.
\<close>

definition group2 :: "latLngKey \<Rightarrow> (latLngKey \<times> TimelineObject) list \<Rightarrow> TimelineObject list" where
  "group2 k kxs =
     (case k of ActivityKey r \<Rightarrow> [snd (last (filter (\<lambda>p. fst p = k) kxs))]
      | LatLngKey a b \<Rightarrow> map snd (filter (\<lambda>p. fst p = k) kxs))"

text \<open>
  The record a group keeps: the first one with an address, or else the first one.
\<close>

definition preferred :: "TimelineObject list \<Rightarrow> TimelineObject" where
  "preferred grp = (case find hasAddress grp of Some w \<Rightarrow> w | None \<Rightarrow> hd grp)"

text \<open>
  The records of a list, each with its key of the second pass.
\<close>

definition keyed :: "(nat \<Rightarrow> number) \<Rightarrow> TimelineObject list \<Rightarrow> (latLngKey \<times> TimelineObject) list" where
  "keyed rnd xs = zip (pass2_keys rnd 0 xs) xs"

text \<open>Records used as concrete inputs.\<close>

definition exampleVisit :: "string option \<Rightarrow> string option \<Rightarrow> rat \<Rightarrow> rat \<Rightarrow> TimelineObject" where
  "exampleVisit pid addr lat lng =
     \<lparr> placeVisit = Some
         \<lparr> location = \<lparr> latitudeE7 = Fin lat, longitudeE7 = Fin lng, placeId = pid,
                        name = Some ''Cafe'', address = addr, semanticType = Some ''TYPE_UNKNOWN'' \<rparr>,
           duration = \<lparr> startTimestamp = Some ''t0'', endTimestamp = Some ''t1'' \<rparr>,
           centerLatE7 = Fin lat, centerLngE7 = Fin lng, visitConfidence = Fin 90 \<rparr>,
       activitySegment = None \<rparr>"

definition exampleActivity :: "string \<Rightarrow> TimelineObject" where
  "exampleActivity t =
     \<lparr> placeVisit = None,
       activitySegment = Some
         \<lparr> startLocation = \<lparr> latitudeE7' = Some (Fin 0), longitudeE7' = Some (Fin 0),
                             placeId' = None, name' = None, address' = None, semanticType' = None \<rparr>,
           endLocation = \<lparr> latitudeE7' = Some (Fin 0), longitudeE7' = Some (Fin 0),
                           placeId' = None, name' = None, address' = None, semanticType' = None \<rparr>,
           duration' = \<lparr> startTimestamp = Some t, endTimestamp = Some t \<rparr>,
           distance = Some (Fin 0), activities = Some [] \<rparr> \<rparr>"

definition isActivityKey :: "latLngKey \<Rightarrow> bool" where
  "isActivityKey k = (case k of ActivityKey r \<Rightarrow> True | LatLngKey a b \<Rightarrow> False)"

text \<open>What a group contributes to the records that are not visits.\<close>

definition activityOf :: "(latLngKey \<times> TimelineObject) list \<Rightarrow> latLngKey \<Rightarrow> TimelineObject list" where
  "activityOf kxs k = (if isActivityKey k then [snd (last (filter (\<lambda>p. fst p = k) kxs))] else [])"

text \<open>
  The coordinates a key of the second pass stands for.
\<close>

definition keyCoordinates :: "latLngKey \<Rightarrow> (number \<times> number) option" where
  "keyCoordinates k = (case k of ActivityKey r \<Rightarrow> None | LatLngKey a b \<Rightarrow> Some (a, b))"

text \<open>
  An environment whose random numbers all differ.
\<close>

definition exampleEnv :: Env where
  "exampleEnv = \<lparr> numberToString = (\<lambda>x. ''0''), random = (\<lambda>i. Fin (1 / 2 ^ Suc i)),
     stringify = (\<lambda>objs. ''{}'') \<rparr>"

text \<open>
  A text is escaped when it has none of \<open><\<close>, \<open>>\<close>, double quote and apostrophe, and every
  \<open>&\<close> in it starts one of the five entities.
\<close>

fun xmlEscaped :: "string \<Rightarrow> bool" where
  "xmlEscaped [] = True"
| "xmlEscaped (c # cs) =
     (if c = CHR ''&''
      then (prefix ''lt;'' cs \<or> prefix ''gt;'' cs \<or> prefix ''amp;'' cs \<or> prefix ''quot;'' cs \<or>
            prefix ''apos;'' cs) \<and> xmlEscaped cs
      else c \<noteq> CHR ''<'' \<and> c \<noteq> CHR ''>'' \<and> c \<noteq> dq \<and> c \<noteq> CHR 0x27 \<and> xmlEscaped cs)"

text \<open>Reading the five entities back.\<close>

fun unescapeXml :: "string \<Rightarrow> string" where
  "unescapeXml [] = []"
| "unescapeXml (c # cs) =
     (if c = CHR ''&'' \<and> prefix ''lt;'' cs then CHR ''<'' # unescapeXml (drop 3 cs)
      else if c = CHR ''&'' \<and> prefix ''gt;'' cs then CHR ''>'' # unescapeXml (drop 3 cs)
      else if c = CHR ''&'' \<and> prefix ''amp;'' cs then CHR ''&'' # unescapeXml (drop 4 cs)
      else if c = CHR ''&'' \<and> prefix ''quot;'' cs then dq # unescapeXml (drop 5 cs)
      else if c = CHR ''&'' \<and> prefix ''apos;'' cs then CHR 0x27 # unescapeXml (drop 5 cs)
      else c # unescapeXml cs)"

text \<open>
  Reading XML text back.  The character data of an element ends at the first \<open><\<close>.  A
  \<open>CDATA\<close> section starts with \<open><![CDATA[\<close> and ends at the first \<open>]]>\<close>: its content is
  what stands between them.
\<close>

definition characterData :: "string \<Rightarrow> string" where
  "characterData s = takeWhile (\<lambda>c. c \<noteq> CHR ''<'') s"

fun occursIn :: "string \<Rightarrow> string \<Rightarrow> bool" where
  "occursIn t [] = (t = [])"
| "occursIn t (c # cs) = (prefix t (c # cs) \<or> occursIn t cs)"

fun untilFirst :: "string \<Rightarrow> string \<Rightarrow> string option" where
  "untilFirst t [] = (if t = [] then Some [] else None)"
| "untilFirst t (c # cs) =
     (if prefix t (c # cs) then Some [] else map_option (Cons c) (untilFirst t cs))"

definition cdataSection :: "string \<Rightarrow> string option" where
  "cdataSection s = (if prefix ''<![CDATA['' s then untilFirst '']]>'' (drop 9 s) else None)"

text \<open>
  A visit whose name and address hold characters that XML reserves.
\<close>

definition exampleAmpersandVisit :: PlaceVisit where
  "exampleAmpersandVisit =
     \<lparr> location = \<lparr> latitudeE7 = Fin 400000000, longitudeE7 = Fin (- 750000000), placeId = Some ''P1'',
                    name = Some ''Tom & Jerry'', address = Some ''1 <Main> St'',
                    semanticType = Some ''TYPE_UNKNOWN'' \<rparr>,
       duration = \<lparr> startTimestamp = Some ''t0'', endTimestamp = Some ''t1'' \<rparr>,
       centerLatE7 = Fin 400000000, centerLngE7 = Fin (- 750000000), visitConfidence = Fin 90 \<rparr>"

text \<open>
  A reader of CSV text, used to state what the CSV output holds: the text is cut at the
  newlines that stand outside double quotes, every line at the commas that stand outside
  double quotes, and every cell must be wrapped in double quotes with every double quote
  inside doubled.
\<close>

fun splitOutside :: "char \<Rightarrow> bool \<Rightarrow> string \<Rightarrow> string list" where
  "splitOutside sep inQuotes [] = [[]]"
| "splitOutside sep inQuotes (c # cs) =
     (if c \<noteq> dq \<and> c = sep \<and> \<not> inQuotes then [] # splitOutside sep False cs
      else (case splitOutside sep (if c = dq then \<not> inQuotes else inQuotes) cs of
              p # ps \<Rightarrow> (c # p) # ps
            | [] \<Rightarrow> [[c]]))"

fun undouble :: "string \<Rightarrow> string option" where
  "undouble [] = Some []"
| "undouble [c] = (if c = dq then None else Some [c])"
| "undouble (c # d # cs) =
     (if c = dq then (if d = dq then map_option (Cons dq) (undouble cs) else None)
      else map_option (Cons c) (undouble (d # cs)))"

definition unquoteCell :: "string \<Rightarrow> string option" where
  "unquoteCell s =
     (case s of
        [] \<Rightarrow> None
      | c # cs \<Rightarrow> if c = dq \<and> cs \<noteq> [] \<and> last cs = dq then undouble (butlast cs) else None)"

definition readCSV :: "string \<Rightarrow> string list list option" where
  "readCSV text =
     those (map (\<lambda>line. those (map unquoteCell (splitOutside CHR '','' False line)))
                (splitOutside nl False text))"

text \<open>
  The state in which a scan of \<open>s\<close> ends when it starts inside (or outside) quotes, or
  \<open>None\<close> when it meets the separator outside quotes.
\<close>

fun scanQuotes :: "char \<Rightarrow> bool \<Rightarrow> string \<Rightarrow> bool option" where
  "scanQuotes sep inQuotes [] = Some inQuotes"
| "scanQuotes sep inQuotes (c # cs) =
     (if c \<noteq> dq \<and> c = sep \<and> \<not> inQuotes then None
      else scanQuotes sep (if c = dq then \<not> inQuotes else inQuotes) cs)"

text \<open>A record of the canonical model is a visit or an activity.\<close>

definition canonical :: "TimelineObject \<Rightarrow> bool" where
  "canonical obj = (placeVisit obj \<noteq> None \<or> activitySegment obj \<noteq> None)"













text \<open>The property \<open>k\<close> of a value that is not \<open>null\<close>.\<close>

definition property :: "json \<Rightarrow> string \<Rightarrow> json option" where
  "property data k = (case data of JObj kvs \<Rightarrow> map_of kvs k | _ \<Rightarrow> None)"

text \<open>
  The classification by the presence of a key, as the claim words it: an array, else a
  mapping that contains \<open>semanticSegments\<close>, else a mapping that contains \<open>timelineObjects\<close>.
\<close>

definition dialectByKeys :: "json \<Rightarrow> dialect" where
  "dialectByKeys data =
     (case data of
        JArr xs \<Rightarrow> DialectA
      | JObj kvs \<Rightarrow>
          if ''semanticSegments'' \<in> fst ` set kvs then DialectB
          else if ''timelineObjects'' \<in> fst ` set kvs then Legacy
          else Unrecognized
      | _ \<Rightarrow> Unrecognized)"

text \<open>
  A host that parses three texts, and a state of the application before a run.
\<close>

definition exampleSettingsText :: string where
  "exampleSettingsText =
     ''{'' @ [dq] @ ''locations'' @ [dq] @ '':[],'' @ [dq] @ ''settings'' @ [dq] @ '':{}}''"

definition exampleHost :: Host where
  "exampleHost =
     \<lparr> jsonParse = (\<lambda>text. if text = ''[]'' then Inr (JArr [])
                       else if text = ''{}'' then Inr (JObj [])
                       else if text = exampleSettingsText
                         then Inr (JObj [(''locations'', JArr []), (''settings'', JObj [])])
                       else Inl ''Unexpected token''),
       typeErrorMessage = ''Cannot convert undefined or null to object'',
       asTimelineObject = (\<lambda>v. None),
       coerceToNumber = (\<lambda>v. Inr NaN),
       numberKey = (\<lambda>x. ''NaN'') \<rparr>"


section \<open>Grouping by key\<close>

lemma firstOccurrences_Nil [simp]: "firstOccurrences [] = []"
  by (simp add: firstOccurrences_def)

lemma firstOccurrences_snoc:
  "firstOccurrences (ks @ [k]) = (if k \<in> set ks then firstOccurrences ks else firstOccurrences ks @ [k])"
  by (simp add: firstOccurrences_def)

lemma set_firstOccurrences [simp]: "set (firstOccurrences ks) = set ks"
  by (simp add: firstOccurrences_def)

lemma distinct_firstOccurrences [simp]: "distinct (firstOccurrences ks)"
  by (simp add: firstOccurrences_def)

lemma firstOccurrences_distinct: "distinct ks \<Longrightarrow> firstOccurrences ks = ks"
  by (simp add: firstOccurrences_def distinct_remdups_id)

lemma firstOccurrences_append:
  "firstOccurrences (ks @ ks') = firstOccurrences ks @ filter (\<lambda>k. k \<notin> set ks) (firstOccurrences ks')"
  by (induction ks' rule: rev_induct) (auto simp: firstOccurrences_snoc simp flip: append_assoc)

lemma map_of_map_set: "map_of (map_set m k v) k' = (if k' = k then Some v else map_of m k')"
  by (induction m) auto

lemma keys_map_set:
  "map fst (map_set m k v) = (if k \<in> fst ` set m then map fst m else map fst m @ [k])"
  by (induction m) (auto, force+)

lemma dom_map_set: "fst ` set (map_set m k v) = insert k (fst ` set m)"
proof -
  have "set (map fst (map_set m k v)) = insert k (set (map fst m))"
    unfolding keys_map_set by auto
  then show ?thesis by simp
qed

lemma map_of_map_push:
  "map_of (map_push m k x) k' =
     (if k' = k then Some ((case map_of m k of None \<Rightarrow> [] | Some g \<Rightarrow> g) @ [x]) else map_of m k')"
  by (auto simp: map_push_def map_has_def Let_def map_of_map_set split: option.splits)

lemma keys_map_push:
  "map fst (map_push m k x) = (if k \<in> fst ` set m then map fst m else map fst m @ [k])"
  by (auto simp: map_push_def map_has_def Let_def keys_map_set map_of_map_set map_of_eq_None_iff
      dom_map_set split: option.splits)

lemma jsmap_by_keys:
  assumes "distinct (map fst m)"
  shows "map (\<lambda>k. (k, the (map_of m k))) (map fst m) = m"
proof -
  have "\<forall>p\<in>set m. map_of m (fst p) = Some (snd p)"
    using assms by auto
  then show ?thesis
    by (simp add: o_def map_idI)
qed

lemma trimmedPlaceId_nonempty: "trimmedPlaceId loc = Some p \<Longrightarrow> p \<noteq> []"
  by (auto simp: trimmedPlaceId_def split: option.splits if_splits)

lemma pass1_step_eq:
  "pass1_step (M, N) obj =
     (case usablePlaceId obj of None \<Rightarrow> (M, N @ [obj]) | Some pid \<Rightarrow> (map_push M pid obj, N))"
  by (auto simp: pass1_step_def usablePlaceId_def dest: trimmedPlaceId_nonempty split: option.splits)

lemma pass1_fold_snd:
  "snd (foldl pass1_step ([], []) xs) = filter (\<lambda>obj. usablePlaceId obj = None) xs"
proof (induction xs rule: rev_induct)
  case Nil
  show ?case by simp
next
  case (snoc x xs)
  obtain M N where st: "foldl pass1_step ([], []) xs = (M, N)"
    by (cases "foldl pass1_step ([], []) xs")
  with snoc show ?case
    by (simp add: pass1_step_eq split: option.splits)
qed

lemma map_filter_snoc:
  "List.map_filter f (xs @ [x]) = List.map_filter f xs @ (case f x of None \<Rightarrow> [] | Some y \<Rightarrow> [y])"
  by (simp add: List.map_filter_def split: option.splits)

lemma set_map_filter: "set (List.map_filter f xs) = {y. \<exists>x\<in>set xs. f x = Some y}"
  by (force simp: List.map_filter_def image_iff)

lemma pass1_fold_keys:
  "map fst (fst (foldl pass1_step ([], []) xs)) = firstOccurrences (List.map_filter usablePlaceId xs)"
proof (induction xs rule: rev_induct)
  case Nil
  show ?case by (simp add: List.map_filter_def)
next
  case (snoc x xs)
  obtain M N where st: "foldl pass1_step ([], []) xs = (M, N)"
    by (cases "foldl pass1_step ([], []) xs")
  have "set (map fst M) = set (firstOccurrences (List.map_filter usablePlaceId xs))"
    using snoc st by simp
  then have keys: "fst ` set M = set (List.map_filter usablePlaceId xs)"
    by simp
  show ?case
  proof (cases "usablePlaceId x")
    case None
    with snoc st show ?thesis by (simp add: pass1_step_eq map_filter_snoc)
  next
    case (Some pid)
    with snoc st keys show ?thesis
      by (simp add: pass1_step_eq map_filter_snoc keys_map_push firstOccurrences_snoc)
  qed
qed

lemma pass1_fold_groups:
  "map_of (fst (foldl pass1_step ([], []) xs)) k =
     (if k \<in> set (List.map_filter usablePlaceId xs)
      then Some (filter (\<lambda>obj. usablePlaceId obj = Some k) xs) else None)"
proof (induction xs rule: rev_induct)
  case Nil
  show ?case by (simp add: List.map_filter_def)
next
  case (snoc x xs)
  obtain M N where st: "foldl pass1_step ([], []) xs = (M, N)"
    by (cases "foldl pass1_step ([], []) xs")
  show ?case
  proof (cases "usablePlaceId x")
    case None
    with snoc st show ?thesis by (simp add: pass1_step_eq map_filter_snoc)
  next
    case (Some pid)
    with snoc st show ?thesis
      by (auto simp: pass1_step_eq map_filter_snoc map_of_map_push set_map_filter
          filter_empty_conv)
  qed
qed

lemma pass2_fold_keyed:
  "fst (foldl (pass2_step rnd) (m, c) xs) = foldl pass2_put m (zip (pass2_keys rnd c xs) xs)"
  by (induction xs arbitrary: m c)
     (auto simp: pass2_step_def pass2_put_def pass2_key_def split: option.splits)

lemma pass2_put_keys: "map fst (foldl pass2_put [] kxs) = firstOccurrences (map fst kxs)"
proof (induction kxs rule: rev_induct)
  case Nil
  show ?case by simp
next
  case (snoc p kxs)
  define M where "M = foldl pass2_put [] kxs"
  have IH: "map fst M = firstOccurrences (map fst kxs)"
    using snoc by (simp add: M_def)
  have "set (map fst M) = set (firstOccurrences (map fst kxs))"
    using IH by simp
  then have keys: "fst ` set M = fst ` set kxs"
    by simp
  have "map fst (pass2_put M p) = firstOccurrences (map fst (kxs @ [p]))"
    using IH keys
    by (cases "fst p") (simp_all add: pass2_put_def keys_map_set keys_map_push firstOccurrences_snoc)
  then show ?case by (simp add: M_def)
qed

lemma pass2_put_groups:
  "map_of (foldl pass2_put [] kxs) k =
     (if k \<in> fst ` set kxs then Some (group2 k kxs) else None)"
proof (induction kxs rule: rev_induct)
  case Nil
  show ?case by simp
next
  case (snoc p kxs)
  define M where "M = foldl pass2_put [] kxs"
  have IH: "map_of M k = (if k \<in> fst ` set kxs then Some (group2 k kxs) else None)"
    using snoc by (simp add: M_def)
  have "map_of (pass2_put M p) k =
     (if k \<in> fst ` set (kxs @ [p]) then Some (group2 k (kxs @ [p])) else None)"
    using IH
    by (cases "fst p"; cases k)
       (force simp: pass2_put_def map_of_map_set map_of_map_push group2_def filter_empty_conv
          image_iff)+
  then show ?case by (simp add: M_def)
qed

lemma survivors_by_keys:
  assumes "distinct (map fst M)"
  shows "survivors M = concat (map (\<lambda>k. selectSurvivor (the (map_of M k))) (map fst M))"
proof -
  have "\<forall>p\<in>set M. map_of M (fst p) = Some (snd p)"
    using assms by auto
  then have eq: "map (\<lambda>p. selectSurvivor (the (map_of M (fst p)))) M = map (\<lambda>p. selectSurvivor (snd p)) M"
    by (intro map_cong) auto
  have "concat (map (\<lambda>k. selectSurvivor (the (map_of M k))) (map fst M)) =
      concat (map (\<lambda>p. selectSurvivor (the (map_of M (fst p)))) M)"
    by (simp only: map_map o_def)
  also have "\<dots> = survivors M"
    by (simp only: eq survivors_def case_prod_unfold)
  finally show ?thesis by simp
qed

lemma pass1_fst:
  "fst (pass1 xs) =
     concat (map (\<lambda>k. selectSurvivor (filter (\<lambda>obj. usablePlaceId obj = Some k) xs))
                 (firstOccurrences (List.map_filter usablePlaceId xs)))"
proof -
  define M where "M = fst (foldl pass1_step ([], []) xs)"
  have keys: "map fst M = firstOccurrences (List.map_filter usablePlaceId xs)"
    by (simp add: M_def pass1_fold_keys)
  then have "distinct (map fst M)" by simp
  then have "survivors M = concat (map (\<lambda>k. selectSurvivor (the (map_of M k))) (map fst M))"
    by (rule survivors_by_keys)
  also have "\<dots> = concat (map (\<lambda>k. selectSurvivor (filter (\<lambda>obj. usablePlaceId obj = Some k) xs))
                 (map fst M))"
  proof (intro arg_cong[where f = concat] map_cong refl)
    fix k assume "k \<in> set (map fst M)"
    then have "k \<in> set (List.map_filter usablePlaceId xs)"
      unfolding keys by simp
    then show "selectSurvivor (the (map_of M k)) =
        selectSurvivor (filter (\<lambda>obj. usablePlaceId obj = Some k) xs)"
      by (simp add: M_def pass1_fold_groups)
  qed
  finally have "survivors M =
      concat (map (\<lambda>k. selectSurvivor (filter (\<lambda>obj. usablePlaceId obj = Some k) xs))
                 (firstOccurrences (List.map_filter usablePlaceId xs)))"
    by (simp only: keys)
  then show ?thesis
    by (cases "foldl pass1_step ([], []) xs") (simp add: pass1_def M_def)
qed

lemma pass1_snd: "snd (pass1 xs) = filter (\<lambda>obj. usablePlaceId obj = None) xs"
  using pass1_fold_snd[of xs] by (cases "foldl pass1_step ([], []) xs") (simp add: pass1_def)

lemma pass2_closed:
  "pass2 rnd xs =
     concat (map (\<lambda>k. selectSurvivor (group2 k (keyed rnd xs)))
                 (firstOccurrences (map fst (keyed rnd xs))))"
proof -
  define M where "M = foldl pass2_put [] (keyed rnd xs)"
  have keys: "map fst M = firstOccurrences (map fst (keyed rnd xs))"
    by (simp add: M_def pass2_put_keys)
  then have "distinct (map fst M)" by simp
  then have "survivors M = concat (map (\<lambda>k. selectSurvivor (the (map_of M k))) (map fst M))"
    by (rule survivors_by_keys)
  also have "\<dots> = concat (map (\<lambda>k. selectSurvivor (group2 k (keyed rnd xs))) (map fst M))"
  proof (intro arg_cong[where f = concat] map_cong refl)
    fix k assume "k \<in> set (map fst M)"
    then have "k \<in> fst ` set (keyed rnd xs)"
      unfolding keys by simp
    then show "selectSurvivor (the (map_of M k)) = selectSurvivor (group2 k (keyed rnd xs))"
      by (simp add: M_def pass2_put_groups)
  qed
  finally have "survivors M =
      concat (map (\<lambda>k. selectSurvivor (group2 k (keyed rnd xs)))
                 (firstOccurrences (map fst (keyed rnd xs))))"
    by (simp only: keys)
  then show ?thesis
    by (simp add: pass2_def pass2_fold_keyed M_def keyed_def)
qed

lemma find_filter: "find P xs = (case filter P xs of [] \<Rightarrow> None | w # _ \<Rightarrow> Some w)"
  by (induction xs) auto

lemma selectSurvivor_preferred: "grp \<noteq> [] \<Longrightarrow> selectSurvivor grp = [preferred grp]"
  by (cases grp rule: selectSurvivor.cases)
     (auto simp: preferred_def find_filter split: list.splits)

lemma selectSurvivor_subset: "set (selectSurvivor grp) \<subseteq> set grp"
proof (cases grp rule: selectSurvivor.cases)
  case (3 x y ys)
  have "set (filter hasAddress grp) \<subseteq> set grp" by auto
  with 3 show ?thesis by (auto split: list.splits)
qed auto

lemma filter_concat_group:
  assumes "distinct ks" "k \<in> set ks" "\<forall>x\<in>set (f k). P x"
    "\<forall>k'\<in>set ks. k' \<noteq> k \<longrightarrow> (\<forall>x\<in>set (f k'). \<not> P x)"
  shows "filter P (concat (map f ks)) = f k"
  using assms
proof (induction ks)
  case Nil
  then show ?case by simp
next
  case (Cons a ks)
  show ?case
  proof (cases "a = k")
    case True
    have "filter P (concat (map f ks)) = []"
      using Cons.prems True by (auto simp: filter_empty_conv)
    moreover have "filter P (f k) = f k"
      using Cons.prems by (simp add: filter_id_conv)
    ultimately show ?thesis using True by simp
  next
    case False
    have "filter P (f a) = []"
      using Cons.prems False by (auto simp: filter_empty_conv)
    moreover have "filter P (concat (map f ks)) = f k"
      using Cons.prems False by (intro Cons.IH) auto
    ultimately show ?thesis by simp
  qed
qed

lemma zip_keys_inv:
  "p \<in> set (zip (pass2_keys rnd c xs) xs) \<Longrightarrow>
     (case fst p of ActivityKey r \<Rightarrow> placeVisit (snd p) = None
      | LatLngKey a b \<Rightarrow> coordinates (snd p) = Some (a, b))"
  by (induction xs arbitrary: c)
     (auto simp: pass2_key_def coordinates_def split: option.splits)

lemma keyed_inv:
  "p \<in> set (keyed rnd xs) \<Longrightarrow>
     snd p \<in> set xs \<and>
     (case fst p of ActivityKey r \<Rightarrow> placeVisit (snd p) = None
      | LatLngKey a b \<Rightarrow> coordinates (snd p) = Some (a, b))"
  unfolding keyed_def using zip_keys_inv[of p rnd 0 xs] by (cases p) (auto dest: set_zip_rightD)

lemma keyed_latLng_group:
  "map snd (filter (\<lambda>p. fst p = LatLngKey a b) (zip (pass2_keys rnd c xs) xs)) =
     filter (\<lambda>obj. coordinates obj = Some (a, b)) xs"
  by (induction xs arbitrary: c)
     (auto simp: pass2_key_def coordinates_def split: option.splits)

lemma group2_latLng:
  "group2 (LatLngKey a b) (keyed rnd xs) = filter (\<lambda>obj. coordinates obj = Some (a, b)) xs"
  by (simp add: group2_def keyed_def keyed_latLng_group)

lemma group2_members:
  assumes "k \<in> fst ` set (keyed rnd xs)" "x \<in> set (group2 k (keyed rnd xs))"
  shows "x \<in> set xs \<and> (case k of ActivityKey r \<Rightarrow> placeVisit x = None
      | LatLngKey a b \<Rightarrow> coordinates x = Some (a, b))"
proof (cases k)
  case (ActivityKey r)
  let ?ps = "filter (\<lambda>p. fst p = k) (keyed rnd xs)"
  have ne: "?ps \<noteq> []" using assms(1) by (auto simp: filter_empty_conv)
  then have "last ?ps \<in> set ?ps" by (rule last_in_set)
  then have mem: "last ?ps \<in> set (keyed rnd xs)" and key: "fst (last ?ps) = k"
    by auto
  from assms(2) ActivityKey have x: "x = snd (last ?ps)" by (simp add: group2_def)
  show ?thesis
    using keyed_inv[OF mem] key ActivityKey x by simp
next
  case (LatLngKey a b)
  with assms(2) show ?thesis by (simp add: group2_latLng)
qed

lemma keyed_keys_coordinates:
  "LatLngKey a b \<in> fst ` set (keyed rnd xs) \<longleftrightarrow> (\<exists>x\<in>set xs. coordinates x = Some (a, b))"
proof -
  have "LatLngKey a b \<in> fst ` set (keyed rnd xs) \<longleftrightarrow> group2 (LatLngKey a b) (keyed rnd xs) \<noteq> []"
    by (force simp: group2_def filter_empty_conv)
  then show ?thesis by (simp add: group2_latLng filter_empty_conv)
qed

lemma allRecords_eq: "allRecordsAfterPlaceIdDedup xs = fst (pass1 xs) @ snd (pass1 xs)"
  by (simp add: allRecordsAfterPlaceIdDedup_def case_prod_unfold)

lemma pass1_group:
  assumes "filter (\<lambda>obj. usablePlaceId obj = Some pid) xs \<noteq> []"
  shows "filter (\<lambda>obj. usablePlaceId obj = Some pid) (allRecordsAfterPlaceIdDedup xs) =
     [preferred (filter (\<lambda>obj. usablePlaceId obj = Some pid) xs)]"
proof -
  let ?f = "\<lambda>k. selectSurvivor (filter (\<lambda>obj. usablePlaceId obj = Some k) xs)"
  let ?ks = "firstOccurrences (List.map_filter usablePlaceId xs)"
  have mem: "pid \<in> set ?ks"
    using assms by (auto simp: set_map_filter filter_empty_conv)
  have sub: "\<And>k x. x \<in> set (?f k) \<Longrightarrow> usablePlaceId x = Some k"
  proof -
    fix k x assume "x \<in> set (?f k)"
    then have "x \<in> set (filter (\<lambda>obj. usablePlaceId obj = Some k) xs)"
      using selectSurvivor_subset by blast
    then show "usablePlaceId x = Some k" by simp
  qed
  have "filter (\<lambda>obj. usablePlaceId obj = Some pid) (concat (map ?f ?ks)) = ?f pid"
  proof (rule filter_concat_group)
    show "\<forall>x\<in>set (?f pid). usablePlaceId x = Some pid"
      using sub by blast
    show "\<forall>k'\<in>set ?ks. k' \<noteq> pid \<longrightarrow> (\<forall>x\<in>set (?f k'). usablePlaceId x \<noteq> Some pid)"
    proof (intro ballI impI)
      fix k' x assume "k' \<noteq> pid" and "x \<in> set (?f k')"
      then show "usablePlaceId x \<noteq> Some pid"
        using sub[of x k'] by simp
    qed
  qed (use mem in simp_all)
  moreover have "filter (\<lambda>obj. usablePlaceId obj = Some pid) (snd (pass1 xs)) = []"
    by (auto simp: pass1_snd filter_empty_conv)
  ultimately show ?thesis
    using assms by (simp add: allRecords_eq pass1_fst selectSurvivor_preferred)
qed

lemma pass2_group:
  assumes "filter (\<lambda>obj. coordinates obj = Some (a, b)) xs \<noteq> []"
  shows "filter (\<lambda>obj. coordinates obj = Some (a, b)) (pass2 rnd xs) =
     [preferred (filter (\<lambda>obj. coordinates obj = Some (a, b)) xs)]"
proof -
  let ?f = "\<lambda>k. selectSurvivor (group2 k (keyed rnd xs))"
  let ?ks = "firstOccurrences (map fst (keyed rnd xs))"
  have mem: "LatLngKey a b \<in> set ?ks"
    using assms keyed_keys_coordinates[of a b rnd xs] by (auto simp: filter_empty_conv)
  have sub: "\<And>k x. k \<in> set ?ks \<Longrightarrow> x \<in> set (?f k) \<Longrightarrow>
      (case k of ActivityKey r \<Rightarrow> placeVisit x = None | LatLngKey a b \<Rightarrow> coordinates x = Some (a, b))"
  proof -
    fix k x assume "k \<in> set ?ks" and "x \<in> set (?f k)"
    then have "k \<in> fst ` set (keyed rnd xs)" and "x \<in> set (group2 k (keyed rnd xs))"
      using selectSurvivor_subset by auto
    then show "case k of ActivityKey r \<Rightarrow> placeVisit x = None
        | LatLngKey a b \<Rightarrow> coordinates x = Some (a, b)"
      using group2_members by blast
  qed
  have "filter (\<lambda>obj. coordinates obj = Some (a, b)) (concat (map ?f ?ks)) = ?f (LatLngKey a b)"
  proof (rule filter_concat_group)
    show "\<forall>x\<in>set (?f (LatLngKey a b)). coordinates x = Some (a, b)"
      using sub[OF mem] by auto
    show "\<forall>k'\<in>set ?ks. k' \<noteq> LatLngKey a b \<longrightarrow> (\<forall>x\<in>set (?f k'). coordinates x \<noteq> Some (a, b))"
    proof (intro ballI impI)
      fix k' x assume k': "k' \<in> set ?ks" "k' \<noteq> LatLngKey a b" and x: "x \<in> set (?f k')"
      from sub[OF k'(1) x] k'(2) show "coordinates x \<noteq> Some (a, b)"
        by (cases k') (auto simp: coordinates_def)
    qed
  qed (use mem in simp_all)
  then show ?thesis
    using assms by (simp add: pass2_closed group2_latLng selectSurvivor_preferred)
qed


lemma length_pass2_keys [simp]: "length (pass2_keys rnd c xs) = length xs"
  by (induction xs arbitrary: c) auto

lemma keys_keyed: "map fst (keyed rnd xs) = pass2_keys rnd 0 xs"
  by (simp add: keyed_def)

lemma objs_keyed: "map snd (keyed rnd xs) = xs"
  by (simp add: keyed_def)

lemma pass2_keys_append:
  "pass2_keys rnd c (xs @ ys) =
     pass2_keys rnd c xs @ pass2_keys rnd (c + length (filter (\<lambda>obj. placeVisit obj = None) xs)) ys"
  by (induction xs arbitrary: c) auto

lemma activity_keys:
  "filter isActivityKey (pass2_keys rnd c xs) =
     map (\<lambda>i. ActivityKey (rnd i)) [c ..< c + length (filter (\<lambda>obj. placeVisit obj = None) xs)]"
proof (induction xs arbitrary: c)
  case Nil
  show ?case by simp
next
  case (Cons x xs)
  show ?case
  proof (cases "placeVisit x")
    case None
    let ?n = "length (filter (\<lambda>obj. placeVisit obj = None) xs)"
    have "[c ..< c + Suc ?n] = c # [Suc c ..< Suc c + ?n]"
      by (simp add: upt_conv_Cons del: upt_Suc)
    with None show ?thesis
      using Cons[of "Suc c"] by (simp add: pass2_key_def isActivityKey_def del: upt_Suc)
  next
    case (Some pv)
    then show ?thesis
      using Cons[of c] by (simp add: pass2_key_def isActivityKey_def)
  qed
qed

lemma activityOf_snoc_other: "fst p \<noteq> k \<Longrightarrow> activityOf (kxs @ [p]) k = activityOf kxs k"
  by (simp add: activityOf_def)

lemma activities_in_order:
  assumes "distinct (filter isActivityKey (map fst kxs))"
    and "\<forall>p\<in>set kxs. isActivityKey (fst p) \<longleftrightarrow> placeVisit (snd p) = None"
  shows "concat (map (activityOf kxs) (firstOccurrences (map fst kxs))) =
     filter (\<lambda>obj. placeVisit obj = None) (map snd kxs)"
  using assms
proof (induction kxs rule: rev_induct)
  case Nil
  show ?case by simp
next
  case (snoc p kxs)
  let ?ks = "firstOccurrences (map fst kxs)"
  have IH: "concat (map (activityOf kxs) ?ks) = filter (\<lambda>obj. placeVisit obj = None) (map snd kxs)"
    using snoc by simp
  show ?case
  proof (cases "isActivityKey (fst p)")
    case True
    then have fresh: "fst p \<notin> set (map fst kxs)"
      using snoc.prems(1) by auto
    then have same: "map (activityOf (kxs @ [p])) ?ks = map (activityOf kxs) ?ks"
      by (intro map_cong refl activityOf_snoc_other) auto
    have new: "activityOf (kxs @ [p]) (fst p) = [snd p]"
      using True by (simp add: activityOf_def)
    have "placeVisit (snd p) = None"
      using True snoc.prems(2) by simp
    then show ?thesis
      using fresh by (simp add: firstOccurrences_snoc same new IH)
  next
    case False
    have same: "map (activityOf (kxs @ [p])) ?ks = map (activityOf kxs) ?ks"
    proof (intro map_cong refl)
      fix k assume "k \<in> set ?ks"
      show "activityOf (kxs @ [p]) k = activityOf kxs k"
      proof (cases "k = fst p")
        case True
        with False show ?thesis by (simp add: activityOf_def)
      next
        case False
        then show ?thesis by (simp add: activityOf_snoc_other)
      qed
    qed
    have new: "activityOf (kxs @ [p]) (fst p) = []"
      using False by (simp add: activityOf_def)
    have "placeVisit (snd p) \<noteq> None"
      using False snoc.prems(2) by simp
    then show ?thesis
      by (auto simp: firstOccurrences_snoc same new IH)
  qed
qed

lemma selectSurvivor_single [simp]: "selectSurvivor [x] = [x]"
  by simp

lemma pass2_activities_of_groups:
  assumes "k \<in> fst ` set (keyed rnd xs)"
  shows "filter (\<lambda>obj. placeVisit obj = None) (selectSurvivor (group2 k (keyed rnd xs))) =
     activityOf (keyed rnd xs) k"
proof (cases k)
  case (ActivityKey r)
  have "x \<in> set (group2 k (keyed rnd xs)) \<Longrightarrow> placeVisit x = None" for x
    using group2_members[OF assms] ActivityKey by auto
  then show ?thesis
    using ActivityKey by (simp add: group2_def activityOf_def isActivityKey_def)
next
  case (LatLngKey a b)
  have "x \<in> set (selectSurvivor (group2 k (keyed rnd xs))) \<Longrightarrow> placeVisit x \<noteq> None" for x
  proof -
    assume "x \<in> set (selectSurvivor (group2 k (keyed rnd xs)))"
    then have "x \<in> set (group2 k (keyed rnd xs))"
      using selectSurvivor_subset by blast
    then have "coordinates x = Some (a, b)"
      using group2_members[OF assms] LatLngKey by auto
    then show "placeVisit x \<noteq> None"
      by (auto simp: coordinates_def split: option.splits)
  qed
  then show ?thesis
    using LatLngKey by (auto simp: activityOf_def isActivityKey_def filter_empty_conv)
qed

lemma pass2_keeps_activities:
  assumes "distinct (map rnd [0 ..< length (filter (\<lambda>obj. placeVisit obj = None) xs)])"
  shows "filter (\<lambda>obj. placeVisit obj = None) (pass2 rnd xs) = filter (\<lambda>obj. placeVisit obj = None) xs"
proof -
  let ?kxs = "keyed rnd xs"
  let ?ks = "firstOccurrences (map fst ?kxs)"
  have "filter (\<lambda>obj. placeVisit obj = None) (pass2 rnd xs) =
      concat (map (\<lambda>k. filter (\<lambda>obj. placeVisit obj = None) (selectSurvivor (group2 k ?kxs))) ?ks)"
    by (simp add: pass2_closed filter_concat o_def)
  also have "\<dots> = concat (map (activityOf ?kxs) ?ks)"
    by (intro arg_cong[where f = concat] map_cong refl pass2_activities_of_groups) simp
  also have "\<dots> = filter (\<lambda>obj. placeVisit obj = None) (map snd ?kxs)"
  proof (rule activities_in_order)
    have "distinct (map (\<lambda>i. ActivityKey (rnd i)) [0 ..< length (filter (\<lambda>obj. placeVisit obj = None) xs)])"
      using assms by (simp add: distinct_map inj_on_def)
    then show "distinct (filter isActivityKey (map fst ?kxs))"
      using activity_keys[of rnd 0 xs] by (simp add: keys_keyed)
    show "\<forall>p\<in>set ?kxs. isActivityKey (fst p) \<longleftrightarrow> placeVisit (snd p) = None"
    proof
      fix p assume "p \<in> set ?kxs"
      from keyed_inv[OF this] show "isActivityKey (fst p) \<longleftrightarrow> placeVisit (snd p) = None"
        by (cases "fst p") (auto simp: isActivityKey_def coordinates_def split: option.splits)
    qed
  qed
  finally show ?thesis by (simp add: objs_keyed)
qed

lemma survivors_are_visits:
  assumes "x \<in> set (fst (pass1 xs))"
  shows "usablePlaceId x \<noteq> None"
proof -
  from assms obtain k where "x \<in> set (selectSurvivor (filter (\<lambda>obj. usablePlaceId obj = Some k) xs))"
    by (auto simp: pass1_fst)
  then have "x \<in> set (filter (\<lambda>obj. usablePlaceId obj = Some k) xs)"
    using selectSurvivor_subset by blast
  then show ?thesis by simp
qed

lemma usable_is_visit: "usablePlaceId x \<noteq> None \<Longrightarrow> placeVisit x \<noteq> None"
  by (auto simp: usablePlaceId_def split: option.splits)

lemma allRecords_activities:
  "filter (\<lambda>obj. placeVisit obj = None) (allRecordsAfterPlaceIdDedup xs) =
     filter (\<lambda>obj. placeVisit obj = None) xs"
proof -
  have "filter (\<lambda>obj. placeVisit obj = None) (fst (pass1 xs)) = []"
    using survivors_are_visits usable_is_visit by (fastforce simp: filter_empty_conv)
  moreover have "filter (\<lambda>obj. placeVisit obj = None) (snd (pass1 xs)) =
      filter (\<lambda>obj. placeVisit obj = None) xs"
    by (auto simp: pass1_snd usablePlaceId_def intro!: filter_cong)
  ultimately show ?thesis by (simp add: allRecords_eq)
qed


lemma visit_keys:
  assumes "\<forall>x\<in>set xs. placeVisit x \<noteq> None"
  shows "pass2_keys rnd c xs = map (\<lambda>x. case coordinates x of Some (a, b) \<Rightarrow> LatLngKey a b
      | None \<Rightarrow> ActivityKey NaN) xs"
  using assms
  by (induction xs arbitrary: c) (auto simp: pass2_key_def coordinates_def)

lemma pass1_closed:
  "allRecordsAfterPlaceIdDedup xs =
     map (\<lambda>pid. preferred (filter (\<lambda>obj. usablePlaceId obj = Some pid) xs))
         (firstOccurrences (List.map_filter usablePlaceId xs)) @
     filter (\<lambda>obj. usablePlaceId obj = None) xs"
proof -
  let ?ks = "firstOccurrences (List.map_filter usablePlaceId xs)"
  have "map (\<lambda>k. selectSurvivor (filter (\<lambda>obj. usablePlaceId obj = Some k) xs)) ?ks =
      map (\<lambda>k. [preferred (filter (\<lambda>obj. usablePlaceId obj = Some k) xs)]) ?ks"
    by (intro map_cong refl selectSurvivor_preferred)
       (auto simp: set_map_filter filter_empty_conv)
  then have "fst (pass1 xs) = concat (map (\<lambda>k. [preferred (filter (\<lambda>obj. usablePlaceId obj = Some k) xs)]) ?ks)"
    by (simp only: pass1_fst)
  also have "\<dots> = map (\<lambda>pid. preferred (filter (\<lambda>obj. usablePlaceId obj = Some pid) xs)) ?ks"
    by (induction ?ks) auto
  finally show ?thesis
    by (simp add: allRecords_eq pass1_snd)
qed

lemma visits_before_unkeyed:
  assumes S: "\<forall>x\<in>set S. placeVisit x \<noteq> None" and N: "\<forall>x\<in>set N. usablePlaceId x = None"
  shows "\<exists>ys zs. pass2 rnd (S @ N) = ys @ zs \<and> (\<forall>y\<in>set ys. placeVisit y \<noteq> None) \<and>
     (\<forall>z\<in>set zs. usablePlaceId z = None)"
proof -
  let ?kxs = "keyed rnd (S @ N)"
  let ?f = "\<lambda>k. selectSurvivor (group2 k ?kxs)"
  let ?c = "length (filter (\<lambda>obj. placeVisit obj = None) S)"
  let ?ks1 = "pass2_keys rnd 0 S"
  let ?ks2 = "pass2_keys rnd (0 + ?c) N"
  have keys: "map fst ?kxs = ?ks1 @ ?ks2"
    by (simp only: keys_keyed pass2_keys_append)
  let ?ys = "concat (map ?f (firstOccurrences ?ks1))"
  let ?zs = "concat (map ?f (filter (\<lambda>k. k \<notin> set ?ks1) (firstOccurrences ?ks2)))"
  have split: "pass2 rnd (S @ N) = ?ys @ ?zs"
    by (simp only: pass2_closed keys firstOccurrences_append map_append concat_append)
  have mem: "k \<in> fst ` set ?kxs" if "k \<in> set ?ks1 \<or> k \<in> set ?ks2" for k
  proof -
    have "set (map fst ?kxs) = set ?ks1 \<union> set ?ks2"
      by (simp only: keys set_append)
    with that show ?thesis by auto
  qed
  have ys: "\<forall>y\<in>set ?ys. placeVisit y \<noteq> None"
  proof
    fix y assume "y \<in> set ?ys"
    then obtain k where k: "k \<in> set ?ks1" and y: "y \<in> set (?f k)"
      by auto
    from y have yg: "y \<in> set (group2 k ?kxs)"
      using selectSurvivor_subset by blast
    from k obtain a b where "k = LatLngKey a b"
      using S by (auto simp: visit_keys[OF S] coordinates_def split: option.splits)
    with group2_members[OF mem yg] k have "coordinates y = Some (a, b)"
      by simp
    then show "placeVisit y \<noteq> None"
      by (auto simp: coordinates_def split: option.splits)
  qed
  have zs: "\<forall>z\<in>set ?zs. usablePlaceId z = None"
  proof
    fix z assume "z \<in> set ?zs"
    then obtain k where k: "k \<in> set ?ks2" "k \<notin> set ?ks1" and z: "z \<in> set (?f k)"
      by auto
    from z have zg: "z \<in> set (group2 k ?kxs)"
      using selectSurvivor_subset by blast
    from group2_members[OF mem zg] k(1)
    have zin: "z \<in> set (S @ N)"
      and zk: "case k of ActivityKey r \<Rightarrow> placeVisit z = None | LatLngKey a b \<Rightarrow> coordinates z = Some (a, b)"
      by simp_all
    show "usablePlaceId z = None"
    proof (cases "z \<in> set N")
      case True
      with N show ?thesis by simp
    next
      case False
      with zin have zS: "z \<in> set S" by simp
      with S obtain a b where c: "coordinates z = Some (a, b)"
        by (auto simp: coordinates_def split: option.splits)
      with zk have "k = LatLngKey a b"
        by (cases k) (auto simp: coordinates_def split: option.splits)
      moreover have "LatLngKey a b \<in> set ?ks1"
        using zS c by (force simp: visit_keys[OF S])
      ultimately show ?thesis using k(2) by simp
    qed
  qed
  from split ys zs show ?thesis by blast
qed


lemma filter_same_key:
  "distinct (map h ys) \<Longrightarrow> x \<in> set ys \<Longrightarrow> filter (\<lambda>y. h y = h x) ys = [x]"
proof (induction ys)
  case Nil
  then show ?case by simp
next
  case (Cons y ys)
  show ?case
  proof (cases "x = y")
    case True
    from Cons.prems True have "\<forall>z\<in>set ys. h z \<noteq> h x"
      by (auto simp: image_iff)
    then have "filter (\<lambda>y. h y = h x) ys = []"
      by (simp add: filter_empty_conv)
    with True show ?thesis by simp
  next
    case False
    with Cons.prems have "x \<in> set ys" "h y \<noteq> h x" by auto
    with Cons show ?thesis by simp
  qed
qed

lemma distinct_filter_split:
  "distinct (filter P xs) \<Longrightarrow> distinct (filter (\<lambda>x. \<not> P x) xs) \<Longrightarrow> distinct xs"
  by (induction xs) (auto split: if_splits)

lemma visit_keys_filter:
  "filter (\<lambda>k. \<not> isActivityKey k) (pass2_keys rnd c xs) =
     map (\<lambda>(a, b). LatLngKey a b) (List.map_filter coordinates xs)"
  by (induction xs arbitrary: c)
     (auto simp: pass2_key_def isActivityKey_def coordinates_def List.map_filter_def
       split: option.splits)

lemma distinct_pass2_keys:
  assumes "distinct (List.map_filter coordinates xs)"
    and "distinct (map rnd [c ..< c + length (filter (\<lambda>obj. placeVisit obj = None) xs)])"
  shows "distinct (pass2_keys rnd c xs)"
proof (rule distinct_filter_split[where P = isActivityKey])
  show "distinct (filter isActivityKey (pass2_keys rnd c xs))"
    using assms(2) by (simp add: activity_keys distinct_map inj_on_def)
  show "distinct (filter (\<lambda>k. \<not> isActivityKey k) (pass2_keys rnd c xs))"
    using assms(1)
    by (auto simp: visit_keys_filter distinct_map inj_on_def case_prod_unfold prod_eq_iff)
qed

lemma pass2_distinct_keys:
  assumes "distinct (pass2_keys rnd 0 xs)"
  shows "pass2 rnd xs = xs"
proof -
  let ?kxs = "keyed rnd xs"
  have d: "distinct (map fst ?kxs)"
    using assms by (simp add: keys_keyed)
  have "map (\<lambda>k. selectSurvivor (group2 k ?kxs)) (map fst ?kxs) = map (\<lambda>p. [snd p]) ?kxs"
    unfolding map_map o_def
  proof (intro map_cong refl)
    fix p assume p: "p \<in> set ?kxs"
    have "filter (\<lambda>q. fst q = fst p) ?kxs = [p]"
      using d p by (rule filter_same_key)
    then show "selectSurvivor (group2 (fst p) ?kxs) = [snd p]"
      by (cases "fst p") (simp_all add: group2_def)
  qed
  then have "pass2 rnd xs = concat (map (\<lambda>p. [snd p]) ?kxs)"
    using d by (simp only: pass2_closed firstOccurrences_distinct)
  also have "\<dots> = map snd ?kxs"
    by (induction ?kxs) auto
  finally show ?thesis by (simp add: objs_keyed)
qed

lemma map_filter_concat:
  "List.map_filter f (concat xss) = concat (map (List.map_filter f) xss)"
  by (induction xss) (auto simp: List.map_filter_def)

lemma map_filter_as_concat:
  "List.map_filter f xs = concat (map (\<lambda>x. case f x of None \<Rightarrow> [] | Some y \<Rightarrow> [y]) xs)"
  by (induction xs) (auto simp: List.map_filter_def)

lemma distinct_map_filter:
  assumes "distinct ks" "\<And>k k' v. f k = Some v \<Longrightarrow> f k' = Some v \<Longrightarrow> k = k'"
  shows "distinct (List.map_filter f ks)"
  unfolding List.map_filter_def
  using assms by (auto simp: distinct_map inj_on_def)

lemma pass2_distinct_coordinates: "distinct (List.map_filter coordinates (pass2 rnd xs))"
proof -
  let ?kxs = "keyed rnd xs"
  let ?ks = "firstOccurrences (map fst ?kxs)"
  have piece: "List.map_filter coordinates (selectSurvivor (group2 k ?kxs)) =
      (case keyCoordinates k of None \<Rightarrow> [] | Some y \<Rightarrow> [y])" if "k \<in> set ?ks" for k
  proof -
    from that have k: "k \<in> fst ` set ?kxs" by simp
    then have ne: "group2 k ?kxs \<noteq> []"
      by (cases k) (force simp: group2_def filter_empty_conv)+
    then have sel: "selectSurvivor (group2 k ?kxs) = [preferred (group2 k ?kxs)]"
      by (rule selectSurvivor_preferred)
    then have "preferred (group2 k ?kxs) \<in> set (group2 k ?kxs)"
      using selectSurvivor_subset[of "group2 k ?kxs"] by simp
    from group2_members[OF k this] show ?thesis
      unfolding sel
      by (cases k) (auto simp: keyCoordinates_def List.map_filter_def coordinates_def)
  qed
  have "List.map_filter coordinates (pass2 rnd xs) =
      concat (map (\<lambda>k. List.map_filter coordinates (selectSurvivor (group2 k ?kxs))) ?ks)"
    by (simp add: pass2_closed map_filter_concat o_def)
  also have "\<dots> = concat (map (\<lambda>k. case keyCoordinates k of None \<Rightarrow> [] | Some y \<Rightarrow> [y]) ?ks)"
    by (intro arg_cong[where f = concat] map_cong refl piece)
  also have "\<dots> = List.map_filter keyCoordinates ?ks"
    by (simp only: map_filter_as_concat)
  finally show ?thesis
    by (auto intro!: distinct_map_filter simp: keyCoordinates_def split: latLngKey.splits)
qed

lemma pass2_subset: "set (pass2 rnd xs) \<subseteq> set xs"
proof
  fix x assume "x \<in> set (pass2 rnd xs)"
  then obtain k where k: "k \<in> fst ` set (keyed rnd xs)"
    and "x \<in> set (selectSurvivor (group2 k (keyed rnd xs)))"
    by (auto simp: pass2_closed)
  then have "x \<in> set (group2 k (keyed rnd xs))"
    using selectSurvivor_subset by blast
  from group2_members[OF k this] show "x \<in> set xs" by simp
qed

lemma preferred_mem: "grp \<noteq> [] \<Longrightarrow> preferred grp \<in> set grp"
  using selectSurvivor_subset[of grp] selectSurvivor_preferred[of grp] by simp

lemma survivor_by_placeId:
  assumes "x \<in> set (allRecordsAfterPlaceIdDedup xs)" "usablePlaceId x = Some pid"
  shows "x = preferred (filter (\<lambda>obj. usablePlaceId obj = Some pid) xs)"
proof -
  from assms obtain k where k: "k \<in> set (List.map_filter usablePlaceId xs)"
    and x: "x = preferred (filter (\<lambda>obj. usablePlaceId obj = Some k) xs)"
    by (auto simp: pass1_closed)
  from k have "filter (\<lambda>obj. usablePlaceId obj = Some k) xs \<noteq> []"
    by (auto simp: set_map_filter filter_empty_conv)
  from preferred_mem[OF this] x have "usablePlaceId x = Some k" by simp
  with assms(2) x show ?thesis by simp
qed

lemma dedup_distinct_placeIds: "distinct (List.map_filter usablePlaceId (dedup rnd xs))"
proof -
  let ?O = "dedup rnd xs"
  have "distinct (map (the \<circ> coordinates) (filter (\<lambda>x. coordinates x \<noteq> None) ?O))"
    using pass2_distinct_coordinates[of rnd "allRecordsAfterPlaceIdDedup xs"]
    by (simp add: dedup_def List.map_filter_def)
  then have "distinct (filter (\<lambda>x. coordinates x \<noteq> None) ?O)"
    by (simp add: distinct_map)
  then have "distinct (filter (\<lambda>x. usablePlaceId x \<noteq> None) (filter (\<lambda>x. coordinates x \<noteq> None) ?O))"
    by (rule distinct_filter)
  moreover have "filter (\<lambda>x. usablePlaceId x \<noteq> None) (filter (\<lambda>x. coordinates x \<noteq> None) ?O) =
      filter (\<lambda>x. usablePlaceId x \<noteq> None) ?O"
    by (auto simp: coordinates_def usablePlaceId_def intro!: filter_cong split: option.splits)
  ultimately have d: "distinct (filter (\<lambda>x. usablePlaceId x \<noteq> None) ?O)"
    by simp
  have "inj_on (the \<circ> usablePlaceId) (set (filter (\<lambda>x. usablePlaceId x \<noteq> None) ?O))"
  proof (rule inj_onI)
    fix a b
    assume a: "a \<in> set (filter (\<lambda>x. usablePlaceId x \<noteq> None) ?O)"
      and b: "b \<in> set (filter (\<lambda>x. usablePlaceId x \<noteq> None) ?O)"
      and eq: "(the \<circ> usablePlaceId) a = (the \<circ> usablePlaceId) b"
    from a obtain p where pa: "usablePlaceId a = Some p" by auto
    with b eq have pb: "usablePlaceId b = Some p" by auto
    from a b have "a \<in> set (allRecordsAfterPlaceIdDedup xs)" "b \<in> set (allRecordsAfterPlaceIdDedup xs)"
      using pass2_subset[of rnd "allRecordsAfterPlaceIdDedup xs"] by (auto simp: dedup_def)
    with pa pb show "a = b"
      using survivor_by_placeId by blast
  qed
  with d show ?thesis
    by (simp add: List.map_filter_def distinct_map)
qed

lemma pass1_distinct_placeIds:
  assumes "distinct (List.map_filter usablePlaceId xs)"
  shows "allRecordsAfterPlaceIdDedup xs =
     filter (\<lambda>obj. usablePlaceId obj \<noteq> None) xs @ filter (\<lambda>obj. usablePlaceId obj = None) xs"
proof -
  let ?ys = "filter (\<lambda>obj. usablePlaceId obj \<noteq> None) xs"
  have d: "distinct (map (the \<circ> usablePlaceId) ?ys)"
    using assms by (simp add: List.map_filter_def)
  have "map (\<lambda>pid. preferred (filter (\<lambda>obj. usablePlaceId obj = Some pid) xs))
      (map (the \<circ> usablePlaceId) ?ys) = map (\<lambda>x. x) ?ys"
    unfolding map_map o_def
  proof (intro map_cong refl)
    fix x assume x: "x \<in> set ?ys"
    then obtain p where p: "usablePlaceId x = Some p" by auto
    have "filter (\<lambda>obj. usablePlaceId obj = Some p) xs =
        filter (\<lambda>y. (the \<circ> usablePlaceId) y = (the \<circ> usablePlaceId) x) ?ys"
      using p by (auto intro!: filter_cong)
    also have "\<dots> = [x]"
      using d x by (rule filter_same_key)
    finally show "preferred (filter (\<lambda>obj. usablePlaceId obj = Some (the (usablePlaceId x))) xs) = x"
      using p by (simp add: preferred_def split: option.splits)
  qed
  then show ?thesis
    using assms by (simp add: pass1_closed firstOccurrences_distinct List.map_filter_def)
qed

lemma second_dedup_permutes:
  assumes "distinct (map rnd' [0 ..< length (filter (\<lambda>obj. placeVisit obj = None) (dedup rnd xs))])"
  shows "mset (dedup rnd' (dedup rnd xs)) = mset (dedup rnd xs)"
proof -
  let ?O = "dedup rnd xs"
  let ?L = "allRecordsAfterPlaceIdDedup ?O"
  have L: "?L = filter (\<lambda>obj. usablePlaceId obj \<noteq> None) ?O @ filter (\<lambda>obj. usablePlaceId obj = None) ?O"
    by (rule pass1_distinct_placeIds) (rule dedup_distinct_placeIds)
  then have perm: "mset ?L = mset ?O"
    by (simp add: union_commute)
  have "mset (List.map_filter coordinates ?L) = mset (List.map_filter coordinates ?O)"
    by (simp only: List.map_filter_def mset_map mset_filter perm)
  then have "distinct (List.map_filter coordinates ?L) = distinct (List.map_filter coordinates ?O)"
    by (rule mset_eq_imp_distinct_iff)
  then have c: "distinct (List.map_filter coordinates ?L)"
    using pass2_distinct_coordinates[of rnd "allRecordsAfterPlaceIdDedup xs"] by (simp add: dedup_def)
  have "distinct (pass2_keys rnd' 0 ?L)"
    using c assms by (intro distinct_pass2_keys) (simp_all add: allRecords_activities)
  then have "pass2 rnd' ?L = ?L"
    by (rule pass2_distinct_keys)
  with perm show ?thesis by (simp add: dedup_def)
qed


lemma chunkLoop_chunks:
  assumes "0 < n"
  shows "\<exists>cs. chunkLoop data n i chunks = Some (chunks @ cs) \<and> concat cs = drop i data \<and>
     (\<forall>c\<in>set cs. c \<noteq> [] \<and> length c \<le> n) \<and> (\<forall>c\<in>set (butlast cs). length c = n)"
proof (induction "length data - i" arbitrary: i chunks rule: less_induct)
  case less
  show ?case
  proof (cases "i < length data")
    case False
    then have "chunkLoop data n i chunks = Some (chunks @ [])"
      by (subst chunkLoop.simps) simp
    moreover have "concat [] = drop i data"
      using False by simp
    ultimately show ?thesis by fastforce
  next
    case True
    let ?sl = "slice data i (i + n)"
    have "length data - (i + n) < length data - i"
      using True assms by arith
    from less[OF this, of "chunks @ [?sl]"]
    obtain cs where cs: "chunkLoop data n (i + n) (chunks @ [?sl]) = Some ((chunks @ [?sl]) @ cs)"
      "concat cs = drop (i + n) data" "\<forall>c\<in>set cs. c \<noteq> [] \<and> length c \<le> n"
      "\<forall>c\<in>set (butlast cs). length c = n"
      by blast
    have step: "chunkLoop data n i chunks = Some (chunks @ (?sl # cs))"
      using True cs(1) by (subst chunkLoop.simps) simp
    have sl: "?sl = take n (drop i data)"
      by (simp add: slice_def)
    have "take n (drop i data) @ drop (i + n) data = drop i data"
      by (metis add.commute append_take_drop_id drop_drop)
    then have cat: "concat (?sl # cs) = drop i data"
      using cs(2) by (simp add: sl)
    have len: "?sl \<noteq> [] \<and> length ?sl \<le> n"
      using True assms by (simp add: sl)
    have full: "length ?sl = n" if "cs \<noteq> []"
    proof -
      from that cs(3) have "concat cs \<noteq> []"
        by (cases cs) auto
      then have "i + n < length data"
        using cs(2) by simp
      then show ?thesis by (simp add: sl)
    qed
    have "\<forall>c\<in>set (butlast (?sl # cs)). length c = n"
      using cs(4) full by auto
    with step cat len cs(3) show ?thesis
      by (intro exI[of _ "?sl # cs"]) auto
  qed
qed

lemma splitIntoChunks_4500:
  assumes "length data = 4500"
  shows "\<exists>chunks. splitIntoChunks data 2000 = Some chunks \<and> map length chunks = [2000, 2000, 500]"
proof -
  have "chunkLoop data 2000 0 [] =
      Some [slice data 0 2000, slice data 2000 4000, slice data 4000 6000]"
    using assms
    by (subst chunkLoop.simps, simp, subst chunkLoop.simps, simp, subst chunkLoop.simps, simp,
        subst chunkLoop.simps, simp)
  then show ?thesis
    using assms by (simp add: splitIntoChunks_def slice_def)
qed


lemma escapeXml_Cons: "escapeXml (c # cs) = escapeChar c @ escapeXml cs"
  by (simp add: escapeXml_def)

lemma escapeXml_escaped: "xmlEscaped (escapeXml s)"
  by (induction s) (auto simp: escapeXml_Cons escapeChar_def escapeXml_def dq_def)

lemma unescape_escapeXml: "unescapeXml (escapeXml s) = s"
  by (induction s) (auto simp: escapeXml_Cons escapeChar_def escapeXml_def dq_def)

lemma xmlEscaped_no_lt: "xmlEscaped s \<Longrightarrow> CHR ''<'' \<notin> set s"
  by (induction s) (auto split: if_splits)

lemma characterData_escaped:
  assumes "xmlEscaped s"
  shows "characterData (s @ CHR ''<'' # rest) = s"
proof -
  have "\<forall>c\<in>set s. c \<noteq> CHR ''<''"
    using xmlEscaped_no_lt[OF assms] by auto
  then show ?thesis
    by (simp add: characterData_def takeWhile_append2)
qed

lemma prefix_before_separator:
  assumes "c \<notin> set t"
  shows "prefix t (u @ c # w) \<longleftrightarrow> prefix t u"
proof
  assume "prefix t (u @ c # w)"
  then consider "prefix t u" | us where "t = u @ us" "prefix us (c # w)"
    by (auto simp: prefix_append)
  then show "prefix t u"
  proof cases
    case 1
    then show ?thesis .
  next
    case 2
    with assms have "us = []"
      by (cases us) auto
    with 2 show ?thesis by simp
  qed
next
  assume "prefix t u"
  then show "prefix t (u @ c # w)"
    by (rule prefix_prefix)
qed

lemma occursIn_separator:
  assumes "c \<notin> set t" "t \<noteq> []"
  shows "occursIn t (u @ c # w) \<longleftrightarrow> occursIn t u \<or> occursIn t w"
proof (induction u)
  case Nil
  have "\<not> prefix t (c # w)"
    using assms by (cases t) auto
  with assms(2) show ?case by simp
next
  case (Cons x u)
  have "prefix t (x # u @ c # w) \<longleftrightarrow> prefix t (x # u)"
    using prefix_before_separator[OF assms(1), of "x # u" w] by simp
  with Cons show ?case by auto
qed

lemma untilFirst_cdata_end:
  assumes "\<not> occursIn '']]>'' body"
  shows "untilFirst '']]>'' (body @ '']]>'' @ rest) = Some body"
  using assms
proof (induction body)
  case Nil
  show ?case by simp
next
  case (Cons c cs)
  then have n: "\<not> prefix '']]>'' (c # cs)" and ih: "untilFirst '']]>'' (cs @ '']]>'' @ rest) = Some cs"
    by simp_all
  have "\<not> prefix '']]>'' (c # cs @ '']]>'' @ rest)"
  proof (cases cs)
    case Nil
    then show ?thesis by simp
  next
    case (Cons d ds)
    show ?thesis
    proof (cases ds)
      case Nil
      with Cons show ?thesis by simp
    next
      case (Cons e es)
      with \<open>cs = d # ds\<close> n show ?thesis by simp
    qed
  qed
  with ih show ?case by simp
qed

lemma occursIn_description:
  "occursIn '']]>'' (a @ [nl] @ ''Start: '' @ s @ [nl] @ ''End: '' @ e) \<longleftrightarrow>
     occursIn '']]>'' a \<or> occursIn '']]>'' s \<or> occursIn '']]>'' e"
proof -
  have 1: "occursIn '']]>'' (a @ nl # (''Start: '' @ s @ nl # (''End: '' @ e))) \<longleftrightarrow>
      occursIn '']]>'' a \<or> occursIn '']]>'' (''Start: '' @ s @ nl # (''End: '' @ e))"
    by (rule occursIn_separator) (simp_all add: nl_def)
  have 2: "occursIn '']]>'' ((''Start: '' @ s) @ nl # (''End: '' @ e)) \<longleftrightarrow>
      occursIn '']]>'' (''Start: '' @ s) \<or> occursIn '']]>'' (''End: '' @ e)"
    by (rule occursIn_separator) (simp_all add: nl_def)
  have 3: "occursIn '']]>'' (''Start: '' @ s) \<longleftrightarrow> occursIn '']]>'' s"
    "occursIn '']]>'' (''End: '' @ e) \<longleftrightarrow> occursIn '']]>'' e"
    by simp_all
  from 1 2 3 show ?thesis by simp
qed


lemma splitOutside_nonempty: "splitOutside sep q s \<noteq> []"
  by (induction s arbitrary: q) (auto split: list.splits)

lemma splitOutside_append:
  "scanQuotes sep q s = Some q' \<Longrightarrow>
     splitOutside sep q (s @ t) = (s @ hd (splitOutside sep q' t)) # tl (splitOutside sep q' t)"
proof (induction s arbitrary: q)
  case Nil
  then show ?case
    using splitOutside_nonempty[of sep q' t] by simp
next
  case (Cons c s)
  then show ?case
    by (auto split: if_splits list.splits)
qed

lemma scanQuotes_append:
  "scanQuotes sep q s = Some q' \<Longrightarrow> scanQuotes sep q (s @ t) = scanQuotes sep q' t"
  by (induction s arbitrary: q) (auto split: if_splits)

lemma splitOutside_join:
  assumes "sep \<noteq> dq" "ps \<noteq> []" "\<forall>p\<in>set ps. scanQuotes sep False p = Some False"
  shows "splitOutside sep False (join [sep] ps) = ps"
  using assms(2,3)
proof (induction "[sep]" ps rule: join.induct)
  case 1
  then show ?case by simp
next
  case (2 x)
  then have "scanQuotes sep False x = Some False" by simp
  from splitOutside_append[OF this, of "[]"] show ?case by simp
next
  case (3 x y ys)
  then have x: "scanQuotes sep False x = Some False"
    and IH: "splitOutside sep False (join [sep] (y # ys)) = y # ys"
    by simp_all
  have "splitOutside sep False (sep # join [sep] (y # ys)) = [] # y # ys"
    using assms(1) IH by simp
  with splitOutside_append[OF x, of "sep # join [sep] (y # ys)"] show ?case
    by simp
qed

lemma doubleQuotes_Nil: "doubleQuotes [] = []"
  by (simp add: doubleQuotes_def)

lemma doubleQuotes_Cons:
  "doubleQuotes (c # s) = (if c = dq then [dq, dq] else [c]) @ doubleQuotes s"
  by (simp add: doubleQuotes_def)

lemma quoteCell_fun: "quoteCell env = (\<lambda>c. [dq] @ doubleQuotes (cellToString env c) @ [dq])"
  by (rule ext) (simp add: quoteCell_def)

lemma scanQuotes_doubleQuotes:
  "scanQuotes sep True (doubleQuotes s @ t) = scanQuotes sep True t"
  by (induction s) (simp_all add: doubleQuotes_Nil doubleQuotes_Cons)

lemma scanQuotes_quoteCell: "scanQuotes sep False (quoteCell env c) = Some False"
  using scanQuotes_doubleQuotes[of sep "cellToString env c" "[dq]"]
  by (simp add: quoteCell_def)

lemma scanQuotes_join:
  assumes "[sep'] = sep1" "sep' \<noteq> sep" "sep' \<noteq> dq"
    "\<forall>p\<in>set ps. scanQuotes sep False p = Some False"
  shows "scanQuotes sep False (join sep1 ps) = Some False"
  using assms
proof (induction sep1 ps rule: join.induct)
  case (3 s x y ys)
  then have x: "scanQuotes sep False x = Some False"
    and IH: "scanQuotes sep False (join s (y # ys)) = Some False"
    by simp_all
  from 3 have "scanQuotes sep False (s @ join s (y # ys)) = Some False"
    using IH by auto
  with scanQuotes_append[OF x] show ?case by simp
qed simp_all

lemma undouble_doubleQuotes: "undouble (doubleQuotes s) = Some s"
proof (induction s)
  case Nil
  show ?case by (simp add: doubleQuotes_Nil)
next
  case (Cons c s)
  show ?case
  proof (cases "c = dq")
    case True
    with Cons show ?thesis by (simp add: doubleQuotes_Cons)
  next
    case False
    with Cons show ?thesis
      by (cases "doubleQuotes s") (simp_all add: doubleQuotes_Cons)
  qed
qed

lemma unquoteCell_quoteCell: "unquoteCell (quoteCell env c) = Some (cellToString env c)"
  by (simp add: unquoteCell_def quoteCell_def undouble_doubleQuotes)

lemma those_map_Some: "\<forall>x\<in>set xs. f x = Some (g x) \<Longrightarrow> those (map f xs) = Some (map g xs)"
  by (induction xs) auto

lemma readCSV_row:
  assumes "row \<noteq> []"
  shows "those (map unquoteCell (splitOutside CHR '','' False (join '','' (map (quoteCell env) row)))) =
     Some (map (cellToString env) row)"
proof -
  have "splitOutside CHR '','' False (join [CHR '',''] (map (quoteCell env) row)) = map (quoteCell env) row"
    using assms by (intro splitOutside_join) (auto simp: dq_def scanQuotes_quoteCell)
  moreover have "those (map unquoteCell (map (quoteCell env) row)) = Some (map (cellToString env) row)"
    unfolding map_map by (rule those_map_Some) (simp add: unquoteCell_quoteCell)
  ultimately show ?thesis by simp
qed

lemma csvRow_length: "csvRow obj = Some row \<Longrightarrow> length row = 8"
  by (auto simp: csvRow_def split: option.splits)

lemma csvRows_nonempty: "row \<in> set (csvRows data) \<Longrightarrow> row \<noteq> []"
  by (auto simp: csvRows_def csvHeader_def set_map_filter dest: csvRow_length)

lemma readCSV_convertToCSV:
  "readCSV (convertToCSV env data) = Some (map (map (cellToString env)) (csvRows data))"
proof -
  let ?line = "\<lambda>row. join '','' (map (quoteCell env) row)"
  have "\<forall>l\<in>set (map ?line (csvRows data)). scanQuotes nl False l = Some False"
  proof
    fix l assume "l \<in> set (map ?line (csvRows data))"
    then obtain row where "l = ?line row" by auto
    moreover have "scanQuotes nl False (join '','' (map (quoteCell env) row)) = Some False"
      by (rule scanQuotes_join[where sep' = "CHR '',''"])
         (auto simp: nl_def dq_def scanQuotes_quoteCell)
    ultimately show "scanQuotes nl False l = Some False" by simp
  qed
  then have "splitOutside nl False (join [nl] (map ?line (csvRows data))) = map ?line (csvRows data)"
    by (intro splitOutside_join) (auto simp: nl_def dq_def csvRows_def)
  moreover have "those (map (\<lambda>line. those (map unquoteCell (splitOutside CHR '','' False line)))
      (map ?line (csvRows data))) = Some (map (map (cellToString env)) (csvRows data))"
    unfolding map_map
    by (rule those_map_Some) (simp add: readCSV_row csvRows_nonempty)
  ultimately show ?thesis
    by (simp add: readCSV_def convertToCSV_def)
qed

lemma csvRows_canonical:
  assumes "\<forall>obj\<in>set data. canonical obj"
  shows "length (csvRows data) = length data + 1"
proof -
  have "filter (\<lambda>obj. csvRow obj \<noteq> None) data = data"
    using assms by (auto simp: filter_id_conv canonical_def csvRow_def split: option.splits)
  then have "length (List.map_filter csvRow data) = length data"
    by (simp add: List.map_filter_def)
  then show ?thesis by (simp add: csvRows_def)
qed

section \<open>Rounding to the nearest double\<close>

























































lemma detect_not_null:
  "data \<noteq> JNull \<Longrightarrow>
     detect data =
       Inr (if isArray data then DialectA
            else if truthy (property data ''semanticSegments'') then DialectB
            else if truthy (property data ''timelineObjects'') then Legacy
            else Unrecognized)"
  by (cases data) (simp_all add: detect_def isArray_def getProp_def andThen_def property_def)


lemma objectKeys_not_null: "data \<noteq> JNull \<Longrightarrow> \<exists>keys. objectKeys data = Inr keys"
  by (cases data) (simp_all add: objectKeys_def)

lemma processFile_parsed:
  assumes "jsonParse host (fileText file) = Inr data"
  shows "processFile host file =
     (case data of
        JNull \<Rightarrow> Inl TypeError
      | _ \<Rightarrow>
        (case detect data of
           Inr DialectA \<Rightarrow> convertNewToOld host data
         | Inr DialectB \<Rightarrow> convertNewToOld host data
         | Inr Legacy \<Rightarrow> andThen (spread (the (property data ''timelineObjects''))) (readAll host)
         | Inr Unrecognized \<Rightarrow>
             andThen (objectKeys data) (\<lambda>keys. Inl (Error (unrecognizedMessage (fileName file) keys)))
         | Inl e \<Rightarrow> Inl e))"
  using assms
  by (cases data)
     (auto simp: processFile_def andThen_def objectKeys_def detect_def isArray_def getProp_def
       property_def split: sum.splits dialect.splits)

lemma convertNewToOld_dialects:
  "convertNewToOld host (JArr segments) = convertSegments host segments"
  "property data ''semanticSegments'' = Some (JArr segments) \<Longrightarrow>
     convertNewToOld host data = convertSegments host segments"
   apply (simp add: convertNewToOld_def)
  apply (cases data)
       apply (simp_all add: convertNewToOld_def property_def getProp_def andThen_def truthy_def)
  done



section \<open>The survivor of a group (C1)\<close>

lemma pass2_single: "pass2 rnd [x] = [x]"
  by (cases "placeVisit x")
     (simp_all add: pass2_def pass2_step_def map_push_def map_has_def survivors_def)

lemma pair_same_placeId:
  assumes "usablePlaceId a = Some pid" "usablePlaceId b = Some pid"
  shows "allRecordsAfterPlaceIdDedup [a, b] = selectSurvivor [a, b]"
  using assms
  by (simp add: allRecords_eq pass1_fst pass1_snd List.map_filter_def firstOccurrences_def)

text \<open>
  Claim C1.  Each pass keeps exactly one record of every group it forms, and that record is
  the first of the group whose address is present and not blank, or the first of the group
  when there is none.  Pass 1 groups the visits of the input by usable (trimmed, non-empty)
  \<open>placeId\<close>; pass 2 groups the visits of \<open>allRecordsAfterPlaceIdDedup\<close> by the pair
  \<open>(latitudeE7, longitudeE7)\<close>.  For two visits with the same \<open>placeId\<close> of which only one
  has an address, that one is the whole result, in either order.
\<close>

theorem dedup_keeps_preferred_survivor:
  "(filter (\<lambda>obj. usablePlaceId obj = Some pid) cleanedData \<noteq> [] \<longrightarrow>
      filter (\<lambda>obj. usablePlaceId obj = Some pid) (allRecordsAfterPlaceIdDedup cleanedData) =
        [preferred (filter (\<lambda>obj. usablePlaceId obj = Some pid) cleanedData)]) \<and>
   (filter (\<lambda>obj. coordinates obj = Some (lat, lng)) (allRecordsAfterPlaceIdDedup cleanedData) \<noteq> [] \<longrightarrow>
      filter (\<lambda>obj. coordinates obj = Some (lat, lng)) (dedup rnd cleanedData) =
        [preferred (filter (\<lambda>obj. coordinates obj = Some (lat, lng))
           (allRecordsAfterPlaceIdDedup cleanedData))]) \<and>
   (usablePlaceId a = Some pid' \<and> usablePlaceId b = Some pid' \<and> \<not> hasAddress a \<and> hasAddress b \<longrightarrow>
      cleaned (cleanData ra True rnd [a, b]) = [b] \<and> cleaned (cleanData ra True rnd [b, a]) = [b])"
proof (intro conjI impI)
  assume "filter (\<lambda>obj. usablePlaceId obj = Some pid) cleanedData \<noteq> []"
  then show "filter (\<lambda>obj. usablePlaceId obj = Some pid) (allRecordsAfterPlaceIdDedup cleanedData) =
        [preferred (filter (\<lambda>obj. usablePlaceId obj = Some pid) cleanedData)]"
    by (rule pass1_group)
next
  assume "filter (\<lambda>obj. coordinates obj = Some (lat, lng)) (allRecordsAfterPlaceIdDedup cleanedData) \<noteq> []"
  then show "filter (\<lambda>obj. coordinates obj = Some (lat, lng)) (dedup rnd cleanedData) =
        [preferred (filter (\<lambda>obj. coordinates obj = Some (lat, lng))
           (allRecordsAfterPlaceIdDedup cleanedData))]"
    unfolding dedup_def by (rule pass2_group)
next
  assume h: "usablePlaceId a = Some pid' \<and> usablePlaceId b = Some pid' \<and> \<not> hasAddress a \<and> hasAddress b"
  then have pv: "placeVisit a \<noteq> None" "placeVisit b \<noteq> None"
    by (auto simp: usablePlaceId_def split: option.splits)
  from h have ab: "allRecordsAfterPlaceIdDedup [a, b] = [b]"
    by (simp add: pair_same_placeId)
  from h have ba: "allRecordsAfterPlaceIdDedup [b, a] = [b]"
    by (simp add: pair_same_placeId)
  show "cleaned (cleanData ra True rnd [a, b]) = [b]"
    using pv ab by (simp add: cleanData_def dedup_def pass2_single Let_def)
  show "cleaned (cleanData ra True rnd [b, a]) = [b]"
    using pv ba by (simp add: cleanData_def dedup_def pass2_single Let_def)
qed

theorem dedup_keeps_preferred_survivor_witness:
  "filter (\<lambda>obj. usablePlaceId obj = Some ''P1'')
      (allRecordsAfterPlaceIdDedup
         [exampleVisit (Some '' P1 '') (Some ''  '') 1 2, exampleVisit (Some ''P1'') (Some ''123 Main St'') 3 4]) =
     [exampleVisit (Some ''P1'') (Some ''123 Main St'') 3 4] \<and>
   filter (\<lambda>obj. coordinates obj = Some (Fin 3, Fin 4))
      (dedup (\<lambda>i. Fin 0)
         [exampleVisit (Some '' P1 '') (Some ''  '') 1 2, exampleVisit (Some ''P1'') (Some ''123 Main St'') 3 4]) =
     [exampleVisit (Some ''P1'') (Some ''123 Main St'') 3 4] \<and>
   cleaned (cleanData True True (\<lambda>i. Fin 0)
      [exampleVisit (Some '' P1 '') (Some ''  '') 1 2, exampleVisit (Some ''P1'') (Some ''123 Main St'') 3 4]) =
     [exampleVisit (Some ''P1'') (Some ''123 Main St'') 3 4] \<and>
   cleaned (cleanData True True (\<lambda>i. Fin 0)
      [exampleVisit (Some ''P1'') (Some ''123 Main St'') 3 4, exampleVisit (Some '' P1 '') (Some ''  '') 1 2]) =
     [exampleVisit (Some ''P1'') (Some ''123 Main St'') 3 4]"
proof -
  let ?a = "exampleVisit (Some '' P1 '') (Some ''  '') 1 2"
  let ?b = "exampleVisit (Some ''P1'') (Some ''123 Main St'') 3 4"
  have ua: "usablePlaceId ?a = Some ''P1''" and ub: "usablePlaceId ?b = Some ''P1''"
    by (simp_all add: usablePlaceId_def exampleVisit_def trimmedPlaceId_def trim_def isWhiteSpace_def)
  have ha: "\<not> hasAddress ?a" and hb: "hasAddress ?b"
    by (simp_all add: hasAddress_def exampleVisit_def trim_def isWhiteSpace_def)
  have ne: "?a \<noteq> ?b" by (simp add: exampleVisit_def)
  have all: "allRecordsAfterPlaceIdDedup [?a, ?b] = [?b]"
    using ua ub ha hb by (simp add: pair_same_placeId)
  have cb: "coordinates ?b = Some (Fin 3, Fin 4)"
    by (simp add: coordinates_def exampleVisit_def)
  show ?thesis
    using dedup_keeps_preferred_survivor[of "''P1''" "[?a, ?b]" "Fin 3" "Fin 4" "\<lambda>i. Fin 0" ?a "''P1''" ?b True]
      ua ub ha hb all cb
    by (simp add: preferred_def)
qed

section \<open>Chunks (C4)\<close>

text \<open>
  Claim C4.  \<open>splitIntoChunks\<close> with chunk size 2000 returns; the chunks joined in order are
  the input, no chunk has more than 2000 records and every chunk but the last has exactly
  2000; 4500 records give chunks of 2000, 2000 and 500.  The rendering step renders every
  chunk when \<open>splitFiles\<close> is set and there are more than 2000 records, and otherwise one
  CSV text and one KML text of the whole list.
\<close>

theorem chunking_lossless:
  "(\<exists>chunks. splitIntoChunks data 2000 = Some chunks \<and> concat chunks = data \<and>
      (\<forall>c\<in>set chunks. length c \<le> 2000) \<and> (\<forall>c\<in>set (butlast chunks). length c = 2000) \<and>
      (length data = 4500 \<longrightarrow> map length chunks = [2000, 2000, 500]) \<and>
      renderFiles env splitFilesOpt data =
        (if splitFilesOpt \<and> 2000 < length data
         then Some (map (convertToCSV env) chunks, map (convertToKML env) chunks)
         else Some ([convertToCSV env data], [convertToKML env data])))"
proof -
  have "(0::nat) < 2000" by simp
  from chunkLoop_chunks[OF this, of data 0 "[]"]
  obtain cs where c1: "chunkLoop data 2000 0 [] = Some ([] @ cs)" and c2: "concat cs = drop 0 data"
    and c3: "\<forall>c\<in>set cs. c \<noteq> [] \<and> length c \<le> 2000"
    and c4: "\<forall>c\<in>set (butlast cs). length c = 2000"
    by (elim exE conjE)
  have s: "splitIntoChunks data 2000 = Some cs"
    using c1 by (simp add: splitIntoChunks_def)
  have e: "length data = 4500 \<longrightarrow> map length cs = [2000, 2000, 500]"
  proof
    assume L: "length data = 4500"
    from splitIntoChunks_4500[OF L]
    obtain chunks where "splitIntoChunks data 2000 = Some chunks"
      and "map length chunks = [2000, 2000, 500]"
      by (elim exE conjE)
    with s show "map length cs = [2000, 2000, 500]"
      by simp
  qed
  have r: "renderFiles env splitFilesOpt data =
        (if splitFilesOpt \<and> 2000 < length data
         then Some (map (convertToCSV env) cs, map (convertToKML env) cs)
         else Some ([convertToCSV env data], [convertToKML env data]))"
    unfolding renderFiles_def s by simp
  show ?thesis
  proof (intro exI[of _ cs] conjI)
    show "splitIntoChunks data 2000 = Some cs" by (fact s)
    show "concat cs = data" using c2 by simp
    show "\<forall>c\<in>set cs. length c \<le> 2000" using c3 by simp
    show "\<forall>c\<in>set (butlast cs). length c = 2000" by (fact c4)
    show "length data = 4500 \<longrightarrow> map length cs = [2000, 2000, 500]" by (fact e)
    show "renderFiles env splitFilesOpt data =
        (if splitFilesOpt \<and> 2000 < length data
         then Some (map (convertToCSV env) cs, map (convertToKML env) cs)
         else Some ([convertToCSV env data], [convertToKML env data]))" by (fact r)
  qed
qed

theorem chunking_lossless_witness:
  "\<exists>chunks. splitIntoChunks (replicate 4500 (exampleActivity ''t0'')) 2000 = Some chunks \<and>
      concat chunks = replicate 4500 (exampleActivity ''t0'') \<and>
      map length chunks = [2000, 2000, 500] \<and>
      renderFiles exampleEnv True (replicate 4500 (exampleActivity ''t0'')) =
        Some (map (convertToCSV exampleEnv) chunks, map (convertToKML exampleEnv) chunks) \<and>
      renderFiles exampleEnv False (replicate 4500 (exampleActivity ''t0'')) =
        Some ([convertToCSV exampleEnv (replicate 4500 (exampleActivity ''t0''))],
              [convertToKML exampleEnv (replicate 4500 (exampleActivity ''t0''))])"
proof -
  let ?d = "replicate 4500 (exampleActivity ''t0'')"
  have len: "length ?d = 4500"
    by simp
  from chunking_lossless[of ?d exampleEnv True]
  obtain chunks where a: "splitIntoChunks ?d 2000 = Some chunks" and b: "concat chunks = ?d"
    and c: "length ?d = 4500 \<longrightarrow> map length chunks = [2000, 2000, 500]"
    and d: "renderFiles exampleEnv True ?d =
        (if True \<and> 2000 < length ?d
         then Some (map (convertToCSV exampleEnv) chunks, map (convertToKML exampleEnv) chunks)
         else Some ([convertToCSV exampleEnv ?d], [convertToKML exampleEnv ?d]))"
    by (elim exE conjE)
  from c len have c': "map length chunks = [2000, 2000, 500]"
    by (rule mp)
  have d': "renderFiles exampleEnv True ?d =
      Some (map (convertToCSV exampleEnv) chunks, map (convertToKML exampleEnv) chunks)"
    unfolding d len by simp
  have r: "renderFiles exampleEnv False ?d =
      Some ([convertToCSV exampleEnv ?d], [convertToKML exampleEnv ?d])"
    unfolding renderFiles_def by simp
  show ?thesis
    by (intro exI[of _ chunks] conjI a b c' d' r)
qed

section \<open>Escaping in the KML text (C2)\<close>

text \<open>
  Claim C2, as amended.  The KML text is the header, one \<open>Placemark\<close> per visit in order, and
  the footer.  The name of every \<open>Placemark\<close> is escaped: it holds none of \<open><\<close>, \<open>>\<close>, double
  quote and apostrophe, every \<open>&\<close> in it starts one of \<open>&lt;\<close>, \<open>&gt;\<close>, \<open>&amp;\<close>, \<open>&quot;\<close>,
  \<open>&apos;\<close>, and the character data of the element \<open>name\<close>, with the entities read back, is
  the name of the record (or \<open>Unknown Location\<close>).  The description is not escaped with
  entities: it is written as a \<open>CDATA\<close> section, and when the address and the two
  timestamps do not hold \<open>]]>\<close>, the content of that section is the address, a newline,
  \<open>Start: \<close> and the start timestamp, a newline, \<open>End: \<close> and the end timestamp, as they
  are.
\<close>

theorem kml_name_escaped:
  "convertToKML env data =
     kmlHeader @ concat (map (placemark env) (List.map_filter placeVisit data)) @ kmlFooter \<and>
   (\<exists>rest. placemark env pv =
      ''    <Placemark>'' @ [nl] @ ''      <name>'' @ placemarkName pv @ ''</name>'' @ [nl] @
      ''      <description><![CDATA['' @ placemarkDescription pv @ '']]></description>'' @ rest) \<and>
   xmlEscaped (placemarkName pv) \<and>
   unescapeXml (characterData (placemarkName pv @ ''</name>'' @ rest1)) =
     orElse (name (location pv)) ''Unknown Location'' \<and>
   (\<not> occursIn '']]>'' (orElse (address (location pv)) []) \<and>
    \<not> occursIn '']]>'' (timestampText (startTimestamp (duration pv))) \<and>
    \<not> occursIn '']]>'' (timestampText (endTimestamp (duration pv))) \<longrightarrow>
      cdataSection (''<![CDATA['' @ placemarkDescription pv @ '']]></description>'' @ rest2) =
        Some (orElse (address (location pv)) [] @ [nl] @
              ''Start: '' @ timestampText (startTimestamp (duration pv)) @ [nl] @
              ''End: '' @ timestampText (endTimestamp (duration pv))))"
proof (intro conjI impI)
  show "convertToKML env data =
     kmlHeader @ concat (map (placemark env) (List.map_filter placeVisit data)) @ kmlFooter"
    by (simp add: convertToKML_def)
  show "\<exists>rest. placemark env pv =
      ''    <Placemark>'' @ [nl] @ ''      <name>'' @ placemarkName pv @ ''</name>'' @ [nl] @
      ''      <description><![CDATA['' @ placemarkDescription pv @ '']]></description>'' @ rest"
    by (simp add: placemark_def Let_def)
  show e: "xmlEscaped (placemarkName pv)"
    by (simp add: placemarkName_def escapeXml_escaped)
  have "characterData (placemarkName pv @ CHR ''<'' # (''/name>'' @ rest1)) = placemarkName pv"
    using e by (rule characterData_escaped)
  then show "unescapeXml (characterData (placemarkName pv @ ''</name>'' @ rest1)) =
     orElse (name (location pv)) ''Unknown Location''"
    by (simp add: placemarkName_def unescape_escapeXml)
next
  let ?body = "orElse (address (location pv)) [] @ [nl] @
     ''Start: '' @ timestampText (startTimestamp (duration pv)) @ [nl] @
     ''End: '' @ timestampText (endTimestamp (duration pv))"
  assume "\<not> occursIn '']]>'' (orElse (address (location pv)) []) \<and>
    \<not> occursIn '']]>'' (timestampText (startTimestamp (duration pv))) \<and>
    \<not> occursIn '']]>'' (timestampText (endTimestamp (duration pv)))"
  then have "\<not> occursIn '']]>'' ?body"
    by (simp only: occursIn_description) simp
  then have "untilFirst '']]>'' (?body @ '']]>'' @ (''</description>'' @ rest2)) = Some ?body"
    by (rule untilFirst_cdata_end)
  then show "cdataSection (''<![CDATA['' @ placemarkDescription pv @ '']]></description>'' @ rest2) =
      Some ?body"
    by (simp add: cdataSection_def placemarkDescription_def)
qed

theorem kml_name_escaped_witness:
  "xmlEscaped (placemarkName exampleAmpersandVisit) \<and>
   placemarkName exampleAmpersandVisit = ''Tom &amp; Jerry'' \<and>
   unescapeXml (characterData (placemarkName exampleAmpersandVisit @ ''</name>'')) = ''Tom & Jerry'' \<and>
   cdataSection (''<![CDATA['' @ placemarkDescription exampleAmpersandVisit @ '']]></description>'') =
     Some (''1 <Main> St'' @ [nl] @ ''Start: t0'' @ [nl] @ ''End: t1'') \<and>
   convertToKML exampleEnv [\<lparr> placeVisit = Some exampleAmpersandVisit, activitySegment = None \<rparr>] =
     kmlHeader @ placemark exampleEnv exampleAmpersandVisit @ kmlFooter"
proof -
  have n: "placemarkName exampleAmpersandVisit = ''Tom &amp; Jerry''"
    by (simp add: placemarkName_def exampleAmpersandVisit_def orElse_def escapeXml_def
        escapeChar_def dq_def)
  have f: "orElse (name (location exampleAmpersandVisit)) ''Unknown Location'' = ''Tom & Jerry''"
    "orElse (address (location exampleAmpersandVisit)) [] = ''1 <Main> St''"
    "timestampText (startTimestamp (duration exampleAmpersandVisit)) = ''t0''"
    "timestampText (endTimestamp (duration exampleAmpersandVisit)) = ''t1''"
    by (simp_all add: exampleAmpersandVisit_def orElse_def timestampText_def)
  have h: "\<not> occursIn '']]>'' ''1 <Main> St''" "\<not> occursIn '']]>'' ''t0''" "\<not> occursIn '']]>'' ''t1''"
    by simp_all
  show ?thesis
    using kml_name_escaped[of exampleEnv
      "[\<lparr> placeVisit = Some exampleAmpersandVisit, activitySegment = None \<rparr>]"
      exampleAmpersandVisit "[]" "[]"] h
    unfolding f
    by (simp add: List.map_filter_def n)
qed

text \<open>
  The claim as it stands fails on the description: an address with \<open><\<close> and \<open>>\<close> stands in
  the description as it is.
\<close>

theorem kml_description_not_escaped:
  "placemarkDescription exampleAmpersandVisit = ''1 <Main> St'' @ [nl] @ ''Start: t0'' @ [nl] @ ''End: t1'' \<and>
   \<not> xmlEscaped (placemarkDescription exampleAmpersandVisit) \<and>
   placemarkName exampleAmpersandVisit = ''Tom &amp; Jerry''"
  by (simp add: placemarkDescription_def placemarkName_def exampleAmpersandVisit_def orElse_def
      timestampText_def escapeXml_def escapeChar_def dq_def nl_def)

section \<open>Rows and cells of the CSV text (C9)\<close>

text \<open>
  Claim C9.  Read back as CSV, the output of \<open>convertToCSV\<close> on \<open>N\<close> canonical records has
  exactly \<open>N + 1\<close> rows, the header first; every cell stands between double quotes with the
  double quotes inside it doubled, and the rows are joined by newlines.
\<close>

theorem csv_rows:
  assumes "\<forall>obj\<in>set data. canonical obj"
  shows "\<exists>rows. readCSV (convertToCSV env data) = Some rows \<and> length rows = length data + 1 \<and>
     hd rows = [''Type'', ''Name'', ''Address'', ''Latitude'', ''Longitude'', ''Start Time'',
                ''End Time'', ''PlaceId''] \<and>
     rows = map (map (cellToString env)) (csvRows data) \<and>
     convertToCSV env data =
       join [nl] (map (\<lambda>row. join '','' (map (\<lambda>s. [dq] @ doubleQuotes s @ [dq]) row)) rows)"
proof -
  let ?rows = "map (map (cellToString env)) (csvRows data)"
  have "length ?rows = length data + 1"
    using csvRows_canonical[OF assms] by simp
  moreover have "hd ?rows = [''Type'', ''Name'', ''Address'', ''Latitude'', ''Longitude'', ''Start Time'',
                ''End Time'', ''PlaceId'']"
    by (simp add: csvRows_def csvHeader_def cellToString_def)
  moreover have "convertToCSV env data =
       join [nl] (map (\<lambda>row. join '','' (map (\<lambda>s. [dq] @ doubleQuotes s @ [dq]) row)) ?rows)"
    by (simp add: convertToCSV_def o_def quoteCell_fun)
  ultimately show ?thesis
    using readCSV_convertToCSV[of env data] by blast
qed

theorem csv_rows_witness:
  "canonical (exampleVisit (Some ''P1'') (Some ''1 Main St'') 1 2) \<and> canonical (exampleActivity ''t0'') \<and>
   (\<exists>rows. readCSV (convertToCSV exampleEnv
        [exampleVisit (Some ''P1'') (Some ''1 Main St'') 1 2, exampleActivity ''t0'']) = Some rows \<and>
      length rows = 3)"
proof -
  have c: "\<forall>obj\<in>set [exampleVisit (Some ''P1'') (Some ''1 Main St'') 1 2, exampleActivity ''t0'']. canonical obj"
    by (simp add: canonical_def exampleVisit_def exampleActivity_def)
  from csv_rows[OF c, of exampleEnv] c show ?thesis
    by auto
qed

section \<open>Records that are not visits (C5)\<close>

text \<open>
  When the values \<open>Math.random()\<close> returns during pass 2 are pairwise different, the
  records that are not visits are the same in the output of the deduplication as in its
  input, in the same order: none is merged, dropped or repeated.
\<close>

lemma dedup_keeps_non_visits:
  assumes "distinct (map rnd [0 ..< length (filter (\<lambda>obj. placeVisit obj = None) cleanedData)])"
  shows "filter (\<lambda>obj. placeVisit obj = None) (dedup rnd cleanedData) =
     filter (\<lambda>obj. placeVisit obj = None) cleanedData"
proof -
  have "distinct (map rnd [0 ..< length (filter (\<lambda>obj. placeVisit obj = None)
      (allRecordsAfterPlaceIdDedup cleanedData))])"
    using assms by (simp add: allRecords_activities)
  then show ?thesis
    unfolding dedup_def by (simp add: pass2_keeps_activities allRecords_activities)
qed

lemma dedup_keeps_non_visits_example:
  "distinct (map (\<lambda>i. Fin (of_nat i))
      [0 ..< length (filter (\<lambda>obj. placeVisit obj = None)
         [exampleActivity ''t0'', exampleVisit (Some ''P1'') None 1 2, exampleActivity ''t1''])]) \<and>
   filter (\<lambda>obj. placeVisit obj = None)
      (dedup (\<lambda>i. Fin (of_nat i))
         [exampleActivity ''t0'', exampleVisit (Some ''P1'') None 1 2, exampleActivity ''t1'']) =
     [exampleActivity ''t0'', exampleActivity ''t1'']"
proof -
  let ?xs = "[exampleActivity ''t0'', exampleVisit (Some ''P1'') None 1 2, exampleActivity ''t1'']"
  have n: "filter (\<lambda>obj. placeVisit obj = None) ?xs = [exampleActivity ''t0'', exampleActivity ''t1'']"
    by (simp add: exampleActivity_def exampleVisit_def)
  have d: "distinct (map (\<lambda>i. Fin (of_nat i)) [0 ..< length (filter (\<lambda>obj. placeVisit obj = None) ?xs)])"
    unfolding n by (simp add: upt_rec)
  show ?thesis
    using dedup_keeps_non_visits[OF d] d n by simp
qed

text \<open>
  Claim C5.  Every record that is not a visit should appear exactly once in the output of
  the deduplication, under a key of its own (the program says so: \<open>Keep non-visit records
  as-is with unique keys\<close>).  The program does not keep to it: the key is \<open>activity-\<close>
  followed by the value of \<open>Math.random()\<close>, and when two calls return the same value the
  second \<open>set\<close> replaces the first record.  On two activity records, with \<open>0.5\<close> returned
  twice, the output holds the second record only.
\<close>

theorem dedup_equal_random_loses_activity:
  "filter (\<lambda>obj. placeVisit obj = None) [exampleActivity ''t0'', exampleActivity ''t1''] =
     [exampleActivity ''t0'', exampleActivity ''t1''] \<and>
   dedup (\<lambda>i. Fin (1 / 2)) [exampleActivity ''t0'', exampleActivity ''t1''] = [exampleActivity ''t1''] \<and>
   cleaned (cleanData False True (\<lambda>i. Fin (1 / 2)) [exampleActivity ''t0'', exampleActivity ''t1'']) =
     [exampleActivity ''t1''] \<and>
   exampleActivity ''t0'' \<notin> set (dedup (\<lambda>i. Fin (1 / 2)) [exampleActivity ''t0'', exampleActivity ''t1''])"
  by (simp add: cleanData_def Let_def dedup_def allRecordsAfterPlaceIdDedup_def pass1_def
      pass1_step_def pass2_def pass2_step_def survivors_def exampleActivity_def)

section \<open>Applying the merge twice (C6)\<close>

text \<open>
  When the values \<open>Math.random()\<close> returns during the second application are pairwise
  different, applying the two-pass merge to the output of the two-pass merge keeps every
  record: the result is a rearrangement of its input, and the count of removed duplicates
  is zero.
\<close>

lemma dedup_twice_removes_nothing:
  assumes "distinct (map rnd' [0 ..< length (filter (\<lambda>obj. placeVisit obj = None) (dedup rnd cleanedData))])"
  shows "mset (dedup rnd' (dedup rnd cleanedData)) = mset (dedup rnd cleanedData) \<and>
     length (dedup rnd' (dedup rnd cleanedData)) = length (dedup rnd cleanedData) \<and>
     removedDuplicates (stats (cleanData False True rnd' (dedup rnd cleanedData))) = 0"
proof -
  have m: "mset (dedup rnd' (dedup rnd cleanedData)) = mset (dedup rnd cleanedData)"
    using assms by (rule second_dedup_permutes)
  then have "length (dedup rnd' (dedup rnd cleanedData)) = length (dedup rnd cleanedData)"
    by (rule mset_eq_length)
  with m show ?thesis
    by (simp add: cleanData_def Let_def)
qed

lemma dedup_twice_removes_nothing_example:
  "distinct (map (\<lambda>i. Fin (1 / 2 ^ Suc i))
      [0 ..< length (filter (\<lambda>obj. placeVisit obj = None)
        (dedup (\<lambda>i. Fin (1 / 2 ^ Suc i))
          [exampleActivity ''t0'', exampleVisit (Some ''P1'') None 1 2, exampleActivity ''t1'',
           exampleVisit (Some ''P1'') None 3 4]))]) \<and>
   length (dedup (\<lambda>i. Fin (1 / 2 ^ Suc i))
     (dedup (\<lambda>i. Fin (1 / 2 ^ Suc i))
        [exampleActivity ''t0'', exampleVisit (Some ''P1'') None 1 2, exampleActivity ''t1'',
         exampleVisit (Some ''P1'') None 3 4])) = 3"
proof -
  let ?xs = "[exampleActivity ''t0'', exampleVisit (Some ''P1'') None 1 2, exampleActivity ''t1'',
         exampleVisit (Some ''P1'') None 3 4]"
  let ?rnd = "\<lambda>i::nat. Fin (1 / 2 ^ Suc i)"
  have O: "dedup ?rnd ?xs =
      [exampleVisit (Some ''P1'') None 1 2, exampleActivity ''t0'', exampleActivity ''t1'']"
    by (simp add: dedup_def allRecordsAfterPlaceIdDedup_def pass1_def pass1_step_def
      trimmedPlaceId_def trim_def isWhiteSpace_def map_push_def map_has_def survivors_def
      pass2_def pass2_step_def hasAddress_def exampleVisit_def exampleActivity_def)
  have n: "filter (\<lambda>obj. placeVisit obj = None) (dedup ?rnd ?xs) =
      [exampleActivity ''t0'', exampleActivity ''t1'']"
    unfolding O by (simp add: exampleVisit_def exampleActivity_def)
  have d: "distinct (map ?rnd [0 ..< length (filter (\<lambda>obj. placeVisit obj = None) (dedup ?rnd ?xs))])"
    unfolding n by (simp add: upt_rec)
  show ?thesis
    using dedup_twice_removes_nothing[OF d] d unfolding O by simp
qed

text \<open>
  Claim C6.  Applying the two-pass merge to the output of the two-pass merge should remove
  no record.  The program does not keep to it: the records that are not visits are keyed
  by \<open>activity-\<close> and the value of \<open>Math.random()\<close>, which the program takes for unique, and
  when two calls of the second application return the same value the second \<open>set\<close>
  replaces the first record.  On two activity records the first application keeps both
  (with different values), and the second, with \<open>0.5\<close> returned twice, keeps one and
  counts one removed duplicate.
\<close>

theorem dedup_twice_equal_random_removes:
  "dedup (\<lambda>i. Fin (1 / 2 ^ Suc i)) [exampleActivity ''t0'', exampleActivity ''t1''] =
     [exampleActivity ''t0'', exampleActivity ''t1''] \<and>
   dedup (\<lambda>i. Fin (1 / 2))
     (dedup (\<lambda>i. Fin (1 / 2 ^ Suc i)) [exampleActivity ''t0'', exampleActivity ''t1'']) =
     [exampleActivity ''t1''] \<and>
   removedDuplicates (stats (cleanData False True (\<lambda>i. Fin (1 / 2))
     (dedup (\<lambda>i. Fin (1 / 2 ^ Suc i)) [exampleActivity ''t0'', exampleActivity ''t1'']))) = 1"
  by (simp add: cleanData_def Let_def dedup_def allRecordsAfterPlaceIdDedup_def pass1_def
      pass1_step_def pass2_def pass2_step_def survivors_def exampleActivity_def)

section \<open>Normalizing a visit (C7)\<close>



section \<open>Format detection and fatal errors (C3, C8)\<close>

text \<open>
  Claim C3, as amended.  For every parsed document other than \<open>null\<close>: an array is
  processed as dialect A; otherwise a value whose property \<open>semanticSegments\<close> is truthy
  (present and not \<open>null\<close>, \<open>false\<close>, \<open>0\<close> or the empty string) is processed as dialect B;
  otherwise a value whose property \<open>timelineObjects\<close> is truthy is passed through as the
  legacy dialect; otherwise the file fails with the unrecognized-format error, whose
  message names the file and lists the top-level keys found, joined by a comma and a
  space: the keys of an object in the order of \<open>Object.keys\<close>, the indices of a string,
  and nothing for a number or a boolean.
\<close>

theorem format_detection:
  assumes "jsonParse host (fileText file) = Inr data" and "data \<noteq> JNull"
  shows "detect data =
       Inr (if isArray data then DialectA
            else if truthy (property data ''semanticSegments'') then DialectB
            else if truthy (property data ''timelineObjects'') then Legacy
            else Unrecognized) \<and>
     (isArray data \<longrightarrow>
        processFile host file = convertNewToOld host data \<and>
        (\<forall>segments. data = JArr segments \<longrightarrow> convertNewToOld host data = convertSegments host segments)) \<and>
     (\<not> isArray data \<and> truthy (property data ''semanticSegments'') \<longrightarrow>
        processFile host file = convertNewToOld host data \<and>
        (\<forall>segments. property data ''semanticSegments'' = Some (JArr segments) \<longrightarrow>
           convertNewToOld host data = convertSegments host segments)) \<and>
     (\<not> isArray data \<and> \<not> truthy (property data ''semanticSegments'') \<and>
      truthy (property data ''timelineObjects'') \<longrightarrow>
        processFile host file =
          andThen (spread (the (property data ''timelineObjects''))) (readAll host)) \<and>
     (\<not> isArray data \<and> \<not> truthy (property data ''semanticSegments'') \<and>
      \<not> truthy (property data ''timelineObjects'') \<longrightarrow>
        (\<forall>kvs. data = JObj kvs \<longrightarrow>
           processFile host file =
             Inl (Error (''File '' @ fileName file @
               '' has unrecognized format. Expected: array (iOS), semanticSegments (Android), or timelineObjects (old format). Found keys: '' @
               join '', '' (map fst kvs)))) \<and>
        (\<forall>s. data = JStr s \<longrightarrow>
           processFile host file =
             Inl (Error (''File '' @ fileName file @
               '' has unrecognized format. Expected: array (iOS), semanticSegments (Android), or timelineObjects (old format). Found keys: '' @
               join '', '' (map showNat [0 ..< length s])))) \<and>
        ((\<exists>x. data = JNum x) \<or> (\<exists>b. data = JBool b) \<longrightarrow>
           processFile host file =
             Inl (Error (''File '' @ fileName file @
               '' has unrecognized format. Expected: array (iOS), semanticSegments (Android), or timelineObjects (old format). Found keys: ''))))"
proof -
  note d = detect_not_null[OF assms(2)]
  have p: "processFile host file =
        (case detect data of
           Inr DialectA \<Rightarrow> convertNewToOld host data
         | Inr DialectB \<Rightarrow> convertNewToOld host data
         | Inr Legacy \<Rightarrow> andThen (spread (the (property data ''timelineObjects''))) (readAll host)
         | Inr Unrecognized \<Rightarrow>
             andThen (objectKeys data) (\<lambda>keys. Inl (Error (unrecognizedMessage (fileName file) keys)))
         | Inl e \<Rightarrow> Inl e)"
    using processFile_parsed[OF assms(1)] assms(2) by (cases data) simp_all
  have k: "objectKeys (JObj kvs) = Inr (map fst kvs)"
    "objectKeys (JStr s) = Inr (map showNat [0 ..< length s])"
    "objectKeys (JNum x) = Inr []" "objectKeys (JBool b) = Inr []" for kvs s x b
    by (simp_all add: objectKeys_def)
  show ?thesis
    unfolding p d
    by (auto simp: k andThen_def unrecognizedMessage_def convertNewToOld_dialects
        intro: convertNewToOld_dialects)
qed

theorem format_detection_witness:
  "jsonParse exampleHost (fileText \<lparr> fileName = ''b.json'', fileText = exampleSettingsText \<rparr>) =
     Inr (JObj [(''locations'', JArr []), (''settings'', JObj [])]) \<and>
   detect (JObj [(''locations'', JArr []), (''settings'', JObj [])]) = Inr Unrecognized \<and>
   processFile exampleHost \<lparr> fileName = ''b.json'', fileText = exampleSettingsText \<rparr> =
     Inl (Error (''File b.json has unrecognized format. Expected: array (iOS), semanticSegments (Android), or timelineObjects (old format). Found keys: locations, settings''))"
proof -
  have j: "jsonParse exampleHost (fileText \<lparr> fileName = ''b.json'', fileText = exampleSettingsText \<rparr>) =
      Inr (JObj [(''locations'', JArr []), (''settings'', JObj [])])"
    by (simp add: exampleHost_def exampleSettingsText_def dq_def)
  have n: "JObj [(''locations'', JArr []), (''settings'', JObj [])] \<noteq> JNull" by simp
  show ?thesis
    using format_detection[OF j n] j
    by (simp add: isArray_def property_def truthy_def)
qed

text \<open>
  The claim as it stands fails: a mapping that contains the key \<open>semanticSegments\<close> with
  the value \<open>null\<close> is not processed as dialect B (here it is passed through as the legacy
  dialect), and the document \<open>null\<close> fails with a \<open>TypeError\<close> instead of the
  unrecognized-format error.
\<close>

theorem null_semanticSegments_is_not_dialect_B:
  "dialectByKeys (JObj [(''semanticSegments'', JNull), (''timelineObjects'', JArr [])]) = DialectB \<and>
   detect (JObj [(''semanticSegments'', JNull), (''timelineObjects'', JArr [])]) = Inr Legacy \<and>
   dialectByKeys JNull = Unrecognized \<and> detect JNull = Inl TypeError"
  by (simp add: dialectByKeys_def detect_def isArray_def getProp_def andThen_def truthy_def)



section \<open>The order of the output (C10)\<close>

text \<open>
  Claim C10, as amended.  With deduplication, the list handed to pass 2 holds the survivor
  of every \<open>placeId\<close> group, the groups in the order of the first occurrence of their
  \<open>placeId\<close>, followed by all records without a usable \<open>placeId\<close> (every record that is not
  a visit among them) in their original order.  The final output is a list of visits
  followed by a list of records without a usable \<open>placeId\<close>: every visit with a usable
  \<open>placeId\<close> comes before every record that is not a visit.
\<close>

theorem dedup_order:
  "allRecordsAfterPlaceIdDedup cleanedData =
     map (\<lambda>pid. preferred (filter (\<lambda>obj. usablePlaceId obj = Some pid) cleanedData))
         (firstOccurrences (List.map_filter usablePlaceId cleanedData)) @
     filter (\<lambda>obj. usablePlaceId obj = None) cleanedData \<and>
   (\<exists>ys zs. dedup rnd cleanedData = ys @ zs \<and> (\<forall>y\<in>set ys. placeVisit y \<noteq> None) \<and>
      (\<forall>z\<in>set zs. usablePlaceId z = None))"
proof
  show "allRecordsAfterPlaceIdDedup cleanedData =
     map (\<lambda>pid. preferred (filter (\<lambda>obj. usablePlaceId obj = Some pid) cleanedData))
         (firstOccurrences (List.map_filter usablePlaceId cleanedData)) @
     filter (\<lambda>obj. usablePlaceId obj = None) cleanedData"
    by (rule pass1_closed)
  have "\<forall>x\<in>set (fst (pass1 cleanedData)). placeVisit x \<noteq> None"
    using survivors_are_visits usable_is_visit by blast
  moreover have "\<forall>x\<in>set (snd (pass1 cleanedData)). usablePlaceId x = None"
    by (simp add: pass1_snd)
  ultimately show "\<exists>ys zs. dedup rnd cleanedData = ys @ zs \<and> (\<forall>y\<in>set ys. placeVisit y \<noteq> None) \<and>
      (\<forall>z\<in>set zs. usablePlaceId z = None)"
    unfolding dedup_def allRecords_eq by (rule visits_before_unkeyed)
qed

theorem dedup_order_witness:
  "allRecordsAfterPlaceIdDedup
      [exampleActivity ''t0'', exampleVisit (Some ''P1'') None 1 2, exampleVisit (Some ''P2'') None 3 4] =
     [exampleVisit (Some ''P1'') None 1 2, exampleVisit (Some ''P2'') None 3 4, exampleActivity ''t0''] \<and>
   (\<exists>ys zs. dedup (\<lambda>i. Fin (1 / 2))
        [exampleActivity ''t0'', exampleVisit (Some ''P1'') None 1 2, exampleVisit (Some ''P2'') None 3 4] =
        ys @ zs \<and>
      list_all (\<lambda>y. placeVisit y \<noteq> None) ys \<and> list_all (\<lambda>z. usablePlaceId z = None) zs)"
proof -
  let ?xs = "[exampleActivity ''t0'', exampleVisit (Some ''P1'') None 1 2, exampleVisit (Some ''P2'') None 3 4]"
  have u: "map usablePlaceId ?xs = [None, Some ''P1'', Some ''P2'']"
    by (simp add: usablePlaceId_def exampleVisit_def exampleActivity_def trimmedPlaceId_def trim_def
        isWhiteSpace_def)
  then have rhs: "map (\<lambda>pid. preferred (filter (\<lambda>obj. usablePlaceId obj = Some pid) ?xs))
         (firstOccurrences (List.map_filter usablePlaceId ?xs)) @
     filter (\<lambda>obj. usablePlaceId obj = None) ?xs =
     [exampleVisit (Some ''P1'') None 1 2, exampleVisit (Some ''P2'') None 3 4, exampleActivity ''t0'']"
    by (simp add: List.map_filter_def firstOccurrences_def preferred_def hasAddress_def exampleVisit_def)
  show ?thesis
    using dedup_order[of ?xs "\<lambda>i. Fin (1 / 2)"] rhs
    by (simp only: list_all_iff)
qed

text \<open>
  The claim as it stands fails: a visit without \<open>placeId\<close> that shares its coordinates with
  an earlier visit takes the place of that visit's group, before later \<open>placeId\<close> survivors.
\<close>

theorem dedup_unkeyed_visit_moves_ahead:
  "dedup (\<lambda>i. Fin (1 / 2))
      [exampleVisit (Some ''P1'') None 1 2, exampleVisit (Some ''P2'') None 3 4,
       exampleVisit None (Some ''123 Main St'') 1 2] =
     [exampleVisit None (Some ''123 Main St'') 1 2, exampleVisit (Some ''P2'') None 3 4] \<and>
   usablePlaceId (exampleVisit None (Some ''123 Main St'') 1 2) = None \<and>
   usablePlaceId (exampleVisit (Some ''P2'') None 3 4) = Some ''P2''"
  by (simp add: dedup_def allRecordsAfterPlaceIdDedup_def pass1_def pass1_step_def
      trimmedPlaceId_def trim_def isWhiteSpace_def map_push_def map_has_def survivors_def
      pass2_def pass2_step_def hasAddress_def exampleVisit_def usablePlaceId_def)

end
